theory Spec2Isabelle
  imports Complex_Main
begin

section \<open>Free-slot calculator\<close>

text \<open>
  The calendar tool works on JavaScript \<open>Date\<close> objects and compares them through
  \<open>getTime()\<close>, the number of milliseconds since the epoch. A \<open>Date\<close> is modelled by
  that integer. In this first embedding the requested duration \<open>durationMs\<close> is a whole
  number of milliseconds, so that every time value is whole; durations with a fraction
  are the matter of the second embedding below.
  The anonymous object type \<open>{ start: Date; end: Date }\<close> of the source is the record
  \<open>interval\<close>; the field \<open>end\<close> is written \<open>end'\<close>, since \<open>end\<close> is reserved.
\<close>

record interval =
  start :: int
  end' :: int

text \<open>The step of the emission loops, \<open>30 * 60 * 1000\<close> milliseconds.\<close>

definition STEP_MS :: int where
  "STEP_MS = 30 * 60 * 1000"

text \<open>
  The inner loop of \<open>computeFreeSlots\<close>, which occurs twice in the source:
  \<^verbatim>\<open>let t = cursor; while (t + durationMs <= limit) { slots.push({start: t, end: t + durationMs}); t += 30 * 60 * 1000; }\<close>
  It returns the slots pushed, in order.
\<close>

function emitSlots :: "int \<Rightarrow> int \<Rightarrow> int \<Rightarrow> interval list" where
  "emitSlots t durationMs limit =
     (if t + durationMs \<le> limit
      then \<lparr>start = t, end' = t + durationMs\<rparr> # emitSlots (t + STEP_MS) durationMs limit
      else [])"
  by pat_completeness auto
termination
  by (relation "measure (\<lambda>(t, durationMs, limit). nat (limit - durationMs - t + 1))")
     (auto simp: STEP_MS_def)

declare emitSlots.simps [simp del]

text \<open>
  The \<open>for (const block of busy)\<close> loop, on the sorted list. Its state is the cursor and
  the slots pushed so far; the result is the state after the last block.
\<close>

fun sweep :: "interval list \<Rightarrow> int \<Rightarrow> int \<Rightarrow> interval list \<Rightarrow> int \<times> interval list" where
  "sweep [] cursor durationMs slots = (cursor, slots)"
| "sweep (block # rest) cursor durationMs slots =
     (let blockStart = start block;
          blockEnd = end' block;
          slots1 = (if blockStart - cursor \<ge> durationMs
                    then slots @ emitSlots cursor durationMs blockStart
                    else slots);
          cursor1 = (if blockEnd > cursor then blockEnd else cursor)
      in sweep rest cursor1 durationMs slots1)"

text \<open>
  \<open>busy.sort((a, b) => a.start.getTime() - b.start.getTime())\<close>: the sort of the
  language is stable, as the insertion sort \<open>sort_key\<close> is.
\<close>

definition computeFreeSlots :: "interval list \<Rightarrow> int \<Rightarrow> int \<Rightarrow> int \<Rightarrow> interval list" where
  "computeFreeSlots busy windowStart windowEnd durationMs =
     (let sorted_busy = sort_key start busy;
          (cursor, slots) = sweep sorted_busy windowStart durationMs []
      in if windowEnd - cursor \<ge> durationMs
         then slots @ emitSlots cursor durationMs windowEnd
         else slots)"

text \<open>Two intervals overlap when each starts before the other ends.\<close>

definition overlaps :: "interval \<Rightarrow> interval \<Rightarrow> bool" where
  "overlaps a b \<longleftrightarrow> start a < end' b \<and> start b < end' a"


subsection \<open>Durations that are not whole milliseconds\<close>

text \<open>
  The parameter \<open>durationMs\<close> of \<open>computeFreeSlots\<close> is a JavaScript number, and the
  callers pass \<open>duration * 60 * 1000\<close> unrounded, so it may have a fraction. The time
  values \<open>t\<close>, \<open>cursor\<close>, \<open>blockStart\<close>, \<open>blockEnd\<close> come from \<open>getTime()\<close> of dates and
  are whole. Each slot is built by \<open>new Date(t)\<close> and \<open>new Date(t + durationMs)\<close>, and the
  constructor clips its argument: a value beyond 8.64e15 in magnitude gives an invalid
  date, and any other value loses its fraction (towards zero). The definitions of this
  subsection follow the function with \<open>durationMs\<close> a rational number and the slots as the
  dates that the constructor gives. Numbers are added and compared exactly; on whole
  numbers in the range of dates the arithmetic of the language is exact as well.
\<close>

definition MAX_TIME :: int where
  "MAX_TIME = 8640000000000000"

datatype date = Date int | Invalid_Date

definition truncate_number :: "rat \<Rightarrow> int" where
  "truncate_number v = (if 0 \<le> v then \<lfloor>v\<rfloor> else \<lceil>v\<rceil>)"

definition new_Date :: "rat \<Rightarrow> date" where
  "new_Date v = (if \<bar>v\<bar> > of_int MAX_TIME then Invalid_Date else Date (truncate_number v))"

text \<open>A returned slot, \<open>{ start: new Date(_), end: new Date(_) }\<close>.\<close>

record slot =
  slot_start :: date
  slot_end :: date

function emitSlots_number :: "int \<Rightarrow> rat \<Rightarrow> int \<Rightarrow> slot list" where
  "emitSlots_number t durationMs limit =
     (if of_int t + durationMs \<le> of_int limit
      then \<lparr>slot_start = new_Date (of_int t), slot_end = new_Date (of_int t + durationMs)\<rparr>
             # emitSlots_number (t + STEP_MS) durationMs limit
      else [])"
  by pat_completeness auto
termination
proof (relation "measure (\<lambda>(t, durationMs, limit). nat (\<lfloor>of_int limit - durationMs - of_int t\<rfloor> + 1))")
  show "wf (measure (\<lambda>(t, durationMs, limit). nat (\<lfloor>of_int limit - durationMs - of_int t\<rfloor> + 1)))"
    by simp
next
  fix t :: int and durationMs :: rat and limit :: int
  assume a: "of_int t + durationMs \<le> of_int limit"
  let ?x = "of_int limit - durationMs - of_int t :: rat"
  have "0 \<le> ?x" using a by (simp add: algebra_simps)
  then have f: "0 \<le> \<lfloor>?x\<rfloor>" by (simp only: zero_le_floor)
  have "of_int limit - durationMs - of_int (t + STEP_MS) = ?x - of_int STEP_MS"
    by (simp add: algebra_simps)
  then have g: "\<lfloor>of_int limit - durationMs - of_int (t + STEP_MS)\<rfloor> = \<lfloor>?x\<rfloor> - STEP_MS"
    by (simp only: floor_diff_of_int)
  have "0 < STEP_MS" by (simp add: STEP_MS_def)
  with f g have "nat (\<lfloor>of_int limit - durationMs - of_int (t + STEP_MS)\<rfloor> + 1)
      < nat (\<lfloor>?x\<rfloor> + 1)"
    by linarith
  then show "((t + STEP_MS, durationMs, limit), (t, durationMs, limit))
      \<in> measure (\<lambda>(t, durationMs, limit). nat (\<lfloor>of_int limit - durationMs - of_int t\<rfloor> + 1))"
    by (simp only: in_measure prod.case)
qed

declare emitSlots_number.simps [simp del]

fun sweep_number :: "interval list \<Rightarrow> int \<Rightarrow> rat \<Rightarrow> slot list \<Rightarrow> int \<times> slot list" where
  "sweep_number [] cursor durationMs slots = (cursor, slots)"
| "sweep_number (block # rest) cursor durationMs slots =
     (let blockStart = start block;
          blockEnd = end' block;
          slots1 = (if of_int (blockStart - cursor) \<ge> durationMs
                    then slots @ emitSlots_number cursor durationMs blockStart
                    else slots);
          cursor1 = (if blockEnd > cursor then blockEnd else cursor)
      in sweep_number rest cursor1 durationMs slots1)"

definition computeFreeSlots_number :: "interval list \<Rightarrow> int \<Rightarrow> int \<Rightarrow> rat \<Rightarrow> slot list" where
  "computeFreeSlots_number busy windowStart windowEnd durationMs =
     (let sorted_busy = sort_key start busy;
          (cursor, slots) = sweep_number sorted_busy windowStart durationMs []
      in if of_int (windowEnd - cursor) \<ge> durationMs
         then slots @ emitSlots_number cursor durationMs windowEnd
         else slots)"

text \<open>
  The dates of a pair of whole time values, as the constructor gives them. With a whole
  duration the functions above return these dates of what \<open>computeFreeSlots\<close> returns
  (proved below), so that \<open>computeFreeSlots\<close> is the function on whole durations.
\<close>

definition dates_of :: "interval \<Rightarrow> slot" where
  "dates_of s = \<lparr>slot_start = new_Date (of_int (start s)), slot_end = new_Date (of_int (end' s))\<rparr>"

text \<open>A time value that a valid date holds.\<close>

definition valid_time :: "int \<Rightarrow> bool" where
  "valid_time t \<longleftrightarrow> - MAX_TIME \<le> t \<and> t \<le> MAX_TIME"


section \<open>Strings\<close>

text \<open>
  A string is a list of characters. Text outside ASCII that the tools write into their
  messages is kept as its UTF-8 bytes. The operations below are the ones of the
  JavaScript \<open>String\<close> and \<open>Array\<close> prototypes that the tools call.
\<close>

definition NL :: char where
  "NL = CHR 0x0A"

text \<open>\<open>s.split("\n")\<close>: the pieces between the line feeds; never an empty array.\<close>

fun split_nl :: "string \<Rightarrow> string list" where
  "split_nl [] = [[]]"
| "split_nl (c # cs) =
     (if c = NL then [] # split_nl cs
      else (case split_nl cs of [] \<Rightarrow> [[c]] | l # ls \<Rightarrow> (c # l) # ls))"

text \<open>\<open>xs.join(sep)\<close>.\<close>

fun join :: "string \<Rightarrow> string list \<Rightarrow> string" where
  "join sep [] = []"
| "join sep [x] = x"
| "join sep (x # y # ys) = x @ sep @ join sep (y # ys)"

text \<open>
  \<open>xs.slice(k)\<close> with one argument: a negative \<open>k\<close> counts from the end of the array.
\<close>

definition slice_from :: "int \<Rightarrow> 'a list \<Rightarrow> 'a list" where
  "slice_from k xs =
     (if k < 0 then drop (nat (max (int (length xs) + k) 0)) xs else drop (nat k) xs)"

text \<open>\<open>hay.includes(needle)\<close>: the needle occurs as a contiguous piece.\<close>

fun startsWith :: "string \<Rightarrow> string \<Rightarrow> bool" where
  "startsWith s [] = True"
| "startsWith [] (p # ps) = False"
| "startsWith (c # cs) (p # ps) = (c = p \<and> startsWith cs ps)"

fun includes_str :: "string \<Rightarrow> string \<Rightarrow> bool" where
  "includes_str [] needle = (needle = [])"
| "includes_str (c # cs) needle = (startsWith (c # cs) needle \<or> includes_str cs needle)"

text \<open>A number in a template literal: its decimal digits, with a sign when negative.\<close>

definition digit_char :: "nat \<Rightarrow> char" where
  "digit_char n = char_of (48 + n)"

fun string_of_nat :: "nat \<Rightarrow> string" where
  "string_of_nat n =
     (if n < 10 then [digit_char n] else string_of_nat (n div 10) @ [digit_char (n mod 10)])"

declare string_of_nat.simps [simp del]

definition string_of_int :: "int \<Rightarrow> string" where
  "string_of_int i = (if i < 0 then CHR ''-'' # string_of_nat (nat (- i)) else string_of_nat (nat i))"

text \<open>
  \<open>x || dflt\<close> on a value that is a string, \<open>null\<close> or \<open>undefined\<close>: the default
  replaces a missing value and the empty string, which are the falsy ones.
\<close>

definition falsy :: "string option \<Rightarrow> bool" where
  "falsy v = (case v of None \<Rightarrow> True | Some s \<Rightarrow> s = [])"

definition or_else :: "string option \<Rightarrow> string \<Rightarrow> string" where
  "or_else v dflt = (case v of None \<Rightarrow> dflt | Some s \<Rightarrow> if s = [] then dflt else s)"

text \<open>The characters outside ASCII of the tools' messages, as UTF-8.\<close>

definition EMOJI_SEARCH :: string where
  "EMOJI_SEARCH = [CHR 0xF0, CHR 0x9F, CHR 0x94, CHR 0x8D]"

definition EMOJI_FOLDER :: string where
  "EMOJI_FOLDER = [CHR 0xF0, CHR 0x9F, CHR 0x93, CHR 0x82]"

definition EMOJI_MEMO :: string where
  "EMOJI_MEMO = [CHR 0xF0, CHR 0x9F, CHR 0x93, CHR 0x9D]"

definition EMOJI_WRENCH :: string where
  "EMOJI_WRENCH = [CHR 0xF0, CHR 0x9F, CHR 0x94, CHR 0xA7]"

definition EMOJI_LINK :: string where
  "EMOJI_LINK = [CHR 0xF0, CHR 0x9F, CHR 0x94, CHR 0x97]"

definition ARROW :: string where
  "ARROW = [CHR 0xE2, CHR 0x86, CHR 0x92]"

definition EMOJI_CHECK :: string where
  "EMOJI_CHECK = [CHR 0xE2, CHR 0x9C, CHR 0x85]"

definition EMOJI_SIREN :: string where
  "EMOJI_SIREN = [CHR 0xF0, CHR 0x9F, CHR 0x9A, CHR 0xA8]"

definition EMOJI_BUST :: string where
  "EMOJI_BUST = [CHR 0xF0, CHR 0x9F, CHR 0x91, CHR 0xA4]"

definition EMOJI_OFFICE :: string where
  "EMOJI_OFFICE = [CHR 0xF0, CHR 0x9F, CHR 0x8F, CHR 0xA2]"

definition EMOJI_CLOCK :: string where
  "EMOJI_CLOCK = [CHR 0xE2, CHR 0x8F, CHR 0xB0]"

definition EM_DASH :: string where
  "EM_DASH = [CHR 0xE2, CHR 0x80, CHR 0x94]"

definition FENCE :: string where
  "FENCE = [CHR 0x60, CHR 0x60, CHR 0x60]"


section \<open>Results, requests and the outside world\<close>

text \<open>
  A \<open>CallToolResult\<close> of the tools is \<open>{ content: [{ type: "text", text }], isError }\<close>
  with one text block; a result written without \<open>isError\<close> has \<open>isError = False\<close>.
\<close>

record CallToolResult =
  content_text :: string
  isError :: bool

text \<open>
  An \<open>async\<close> function returns a value or throws; a thrown error is kept as its
  message, which is what the \<open>catch\<close> blocks read. Where the runtime itself throws (a
  \<open>TypeError\<close>, the \<open>SyntaxError\<close> of \<open>res.json()\<close>), a fixed text stands for its message.
\<close>

datatype 'a outcome = Returned 'a | Thrown string

definition await :: "'a outcome \<Rightarrow> ('a \<Rightarrow> 'b outcome) \<Rightarrow> 'b outcome" where
  "await x f = (case x of Thrown m \<Rightarrow> Thrown m | Returned v \<Rightarrow> f v)"

record GHRepo =
  full_name :: string
  description :: "string option"
  html_url :: string
  language :: "string option"
  updated_at :: string

text \<open>The nested \<open>repository: { full_name }\<close> of a search item is flattened.\<close>

record GHSearchItem =
  item_path :: string
  item_repository_full_name :: string
  item_html_url :: string

record GHFileContent =
  content :: "string option"
  file_path :: string
  file_html_url :: string

record DiscordEmbedField =
  field_name :: string
  field_value :: string
  field_inline :: bool

record DiscordEmbed =
  title :: string
  embed_description :: string
  color :: nat
  embed_fields :: "DiscordEmbedField list"
  footer_text :: string
  timestamp :: string

record DiscordPayload =
  payload_content :: string
  embeds :: "DiscordEmbed list"

text \<open>
  A call of \<open>fetch\<close>: the URL and the headers, and for a \<open>POST\<close> the payload that
  \<open>JSON.stringify\<close> serialises.
\<close>

datatype request =
  GET string "(string \<times> string) list"
| POST string "(string \<times> string) list" DiscordPayload

text \<open>
  A response: its status, its body as text (\<open>res.text()\<close>) and the value that
  \<open>res.json()\<close> gives, which the tools cast to the type they expect. \<open>NotJson\<close> is a
  body that does not parse, \<open>OtherJson\<close> a JSON value of another shape.
\<close>

datatype json_body =
  SearchData int "GHSearchItem list"
| Repos "GHRepo list"
| FileContent GHFileContent
| OtherJson
| NotJson

record response =
  status :: nat
  raw_text :: string
  json :: json_body

text \<open>\<open>res.ok\<close>: the status is in the range 200 to 299.\<close>

definition ok :: "response \<Rightarrow> bool" where
  "ok res \<longleftrightarrow> 200 \<le> status res \<and> status res \<le> 299"

text \<open>
  What the tools read from outside: the environment variables, the network behind
  \<open>fetch\<close>, the library functions \<open>Buffer.from(_, "base64").toString("utf-8")\<close>,
  \<open>encodeURIComponent\<close> and \<open>toLowerCase\<close>, and the two renderings of the current time
  that the alert uses.
\<close>

record world =
  GITHUB_TOKEN :: "string option"
  GITHUB_USERNAME :: "string option"
  DISCORD_WEBHOOK_URL :: "string option"
  fetch :: "request \<Rightarrow> response outcome"
  decodeBase64 :: "string \<Rightarrow> string"
  encodeURIComponent :: "string \<Rightarrow> string"
  toLowerCase :: "string \<Rightarrow> string"
  now_locale_string :: string
  now_iso_string :: string


section \<open>The code-search tool\<close>

subsection \<open>Excerpts\<close>

text \<open>
  \<open>truncateCode(code, maxLines = 40)\<close>. The threshold is the parameter; the sizes of
  the head (20 lines) and of the tail (15 lines) and the count of omitted lines
  (\<open>lines.length - 35\<close>) are fixed in the source.
\<close>

definition truncateCode :: "string \<Rightarrow> nat \<Rightarrow> string" where
  "truncateCode code maxLines =
     (let lines = split_nl code in
      if length lines \<le> maxLines then code
      else let head = join [NL] (take 20 lines);
               tail = join [NL] (slice_from (int (length lines) - 15) lines)
           in head @ [NL, NL] @ ''  ... ('' @ string_of_int (int (length lines) - 35)
                @ '' lines omitted) ...'' @ [NL, NL] @ tail)"

subsection \<open>Requests of the code-search tool\<close>

text \<open>\<open>githubHeaders()\<close>; an unset token is interpolated as \<open>undefined\<close>.\<close>

definition githubHeaders :: "world \<Rightarrow> (string \<times> string) list" where
  "githubHeaders w =
     [(''Authorization'',
       ''token '' @ (case GITHUB_TOKEN w of None \<Rightarrow> ''undefined'' | Some t \<Rightarrow> t)),
      (''Accept'', ''application/vnd.github.v3+json''),
      (''User-Agent'', ''VageshwarTwinMCP'')]"

definition searchUrl :: "world \<Rightarrow> string \<Rightarrow> string \<Rightarrow> string" where
  "searchUrl w query username =
     ''https://api.github.com/search/code'' @
     ''?q='' @ encodeURIComponent w query @ ''+user:'' @ encodeURIComponent w username @
     ''&per_page=5''"

definition reposUrl :: "string \<Rightarrow> string" where
  "reposUrl username =
     ''https://api.github.com/users/'' @ username @ ''/repos'' @
     ''?type=owner&sort=updated&per_page=30''"

definition readmeUrl :: "GHRepo \<Rightarrow> string" where
  "readmeUrl repo = ''https://api.github.com/repos/'' @ full_name repo @ ''/readme''"

definition fileUrl :: "GHSearchItem \<Rightarrow> string" where
  "fileUrl item =
     ''https://api.github.com/repos/'' @ item_repository_full_name item @ ''/contents/'' @
     item_path item"

text \<open>\<open>await res.json()\<close>.\<close>

definition res_json :: "response \<Rightarrow> json_body outcome" where
  "res_json res =
     (case json res of NotJson \<Rightarrow> Thrown ''SyntaxError: Unexpected token'' | b \<Rightarrow> Returned b)"

text \<open>
  \<open>fileData.content\<close> after the cast to \<open>GHFileContent\<close>: a JSON value of another shape
  has no such property.
\<close>

definition content_of :: "json_body \<Rightarrow> string option" where
  "content_of b = (case b of FileContent f \<Rightarrow> content f | _ \<Rightarrow> None)"

subsection \<open>The repository-listing fallback\<close>

text \<open>The filter and the \<open>slice(0, 4)\<close> of \<open>fallbackRepoSearch\<close>.\<close>

definition matchedRepos :: "world \<Rightarrow> string \<Rightarrow> GHRepo list \<Rightarrow> GHRepo list" where
  "matchedRepos w query repos =
     (let q = toLowerCase w query in
      take 4 (filter
        (\<lambda>r. let haystack =
                 toLowerCase w
                   (join '' '' [full_name r, or_else (description r) [], or_else (language r) []])
             in includes_str haystack q)
        repos))"

text \<open>
  The first half of the body of \<open>for (const repo of matched)\<close>: the README excerpt of
  one repository, empty when the README cannot be read.
\<close>

definition readmeSnippet :: "world \<Rightarrow> GHRepo \<Rightarrow> string outcome" where
  "readmeSnippet w repo =
     await (fetch w (GET (readmeUrl repo) (githubHeaders w))) (\<lambda>readmeRes.
       if ok readmeRes then
         await (res_json readmeRes) (\<lambda>readmeData.
           case content_of readmeData of
             None \<Rightarrow> Returned []
           | Some c \<Rightarrow>
               if c = [] then Returned []
               else let readme = decodeBase64 w c in Returned (truncateCode readme 20))
       else Returned [])"

text \<open>The second half: the entry pushed onto \<open>results\<close>.\<close>

definition repoEntry :: "GHRepo \<Rightarrow> string \<Rightarrow> string" where
  "repoEntry repo snippet =
     EMOJI_FOLDER @ '' '' @ full_name repo @ [NL] @
     EMOJI_MEMO @ '' '' @ or_else (description repo) ''No description'' @ [NL] @
     EMOJI_WRENCH @ '' Language: '' @ or_else (language repo) ''Not specified'' @ [NL] @
     EMOJI_LINK @ '' '' @ html_url repo @ [NL] @
     (if snippet \<noteq> []
      then [NL] @ ''README:'' @ [NL] @ FENCE @ [NL] @ snippet @ [NL] @ FENCE
      else [])"

fun repoEntries :: "world \<Rightarrow> GHRepo list \<Rightarrow> string list outcome" where
  "repoEntries w [] = Returned []"
| "repoEntries w (repo # rest) =
     await (readmeSnippet w repo) (\<lambda>snippet.
       await (repoEntries w rest) (\<lambda>results.
         Returned (repoEntry repo snippet # results)))"

definition fallbackRepoSearch :: "world \<Rightarrow> string \<Rightarrow> string \<Rightarrow> CallToolResult outcome" where
  "fallbackRepoSearch w query username =
     await (fetch w (GET (reposUrl username) (githubHeaders w))) (\<lambda>reposRes.
       if \<not> ok reposRes then
         Returned \<lparr>content_text = ''Could not fetch repos: HTTP '' @ string_of_nat (status reposRes),
                   isError = True\<rparr>
       else
         await (res_json reposRes) (\<lambda>b.
           case b of
             Repos repos \<Rightarrow>
               let matched = matchedRepos w query repos in
               if length matched = 0 then
                 Returned \<lparr>content_text =
                             ''No repositories found matching \"'' @ query @ ''\" for user '' @
                             username @ ''.'',
                           isError = False\<rparr>
               else
                 await (repoEntries w matched) (\<lambda>results.
                   Returned \<lparr>content_text =
                               EMOJI_SEARCH @ '' Repos matching \"'' @ query @ ''\":'' @ [NL, NL] @
                               join ([NL, NL] @ ''---'' @ [NL, NL]) results,
                             isError = False\<rparr>)
           | _ \<Rightarrow> Thrown ''TypeError: repos.filter is not a function''))"

subsection \<open>The code search\<close>

text \<open>
  The loop \<open>for (const item of searchData.items.slice(0, 3))\<close>: a file that cannot be
  read, or that has no content, is skipped by \<open>continue\<close>.
\<close>

fun snippetsOf :: "world \<Rightarrow> GHSearchItem list \<Rightarrow> string list outcome" where
  "snippetsOf w [] = Returned []"
| "snippetsOf w (item # rest) =
     await (fetch w (GET (fileUrl item) (githubHeaders w))) (\<lambda>fileRes.
       if \<not> ok fileRes then snippetsOf w rest
       else
         await (res_json fileRes) (\<lambda>fileData.
           case content_of fileData of
             None \<Rightarrow> snippetsOf w rest
           | Some c \<Rightarrow>
               if c = [] then snippetsOf w rest
               else
                 let code = decodeBase64 w c;
                     truncated = truncateCode code 40
                 in await (snippetsOf w rest) (\<lambda>snippets.
                      Returned
                        ((EMOJI_FOLDER @ '' '' @ item_repository_full_name item @ '' '' @ ARROW @
                          '' '' @ item_path item @ [NL] @
                          EMOJI_LINK @ '' '' @ item_html_url item @ [NL] @
                          FENCE @ [NL] @ truncated @ [NL] @ FENCE) # snippets))))"

text \<open>The body of the \<open>try\<close> block of \<open>githubSearch\<close>.\<close>

definition githubSearch_try :: "world \<Rightarrow> string \<Rightarrow> string \<Rightarrow> CallToolResult outcome" where
  "githubSearch_try w query username =
     await (fetch w (GET (searchUrl w query username) (githubHeaders w))) (\<lambda>searchRes.
       if \<not> ok searchRes then fallbackRepoSearch w query username
       else
         await (res_json searchRes) (\<lambda>b.
           case b of
             SearchData total_count items \<Rightarrow>
               if total_count = 0 \<or> length items = 0 then fallbackRepoSearch w query username
               else
                 await (snippetsOf w (take 3 items)) (\<lambda>snippets.
                   if length snippets = 0 then fallbackRepoSearch w query username
                   else
                     Returned \<lparr>content_text =
                                 EMOJI_SEARCH @ '' GitHub search results for \"'' @ query @
                                 ''\":'' @ [NL, NL] @
                                 join ([NL, NL] @ ''---'' @ [NL, NL]) snippets,
                               isError = False\<rparr>)
           | _ \<Rightarrow> Thrown ''TypeError: Cannot read properties of undefined''))"

text \<open>
  \<open>githubSearch\<close>: the check of the credentials, then the \<open>try\<close> block, whose \<open>catch\<close>
  turns a thrown error into an error result.
\<close>

definition githubSearch :: "world \<Rightarrow> string \<Rightarrow> CallToolResult" where
  "githubSearch w query =
     (if falsy (GITHUB_TOKEN w) \<or> falsy (GITHUB_USERNAME w) then
        \<lparr>content_text = ''ERROR: GITHUB_TOKEN or GITHUB_USERNAME not set in environment.'',
         isError = True\<rparr>
      else
        case githubSearch_try w query (or_else (GITHUB_USERNAME w) []) of
          Returned r \<Rightarrow> r
        | Thrown message \<Rightarrow>
            \<lparr>content_text = ''GitHub search error: '' @ message, isError = True\<rparr>)"


section \<open>The alert tool\<close>

text \<open>The embed built by both versions of the tool, from values already defaulted.\<close>

definition alertPayload :: "world \<Rightarrow> string \<Rightarrow> string \<Rightarrow> string \<Rightarrow> DiscordPayload" where
  "alertPayload w description_text visitor_text company_text =
     \<lparr>payload_content = EMOJI_SIREN @ '' **High-Value Lead Alert**'',
      embeds =
        [\<lparr>title = EMOJI_SIREN @ '' New Lead Notification'',
          embed_description = description_text,
          color = 0xff4500,
          embed_fields =
            [\<lparr>field_name = EMOJI_BUST @ '' Visitor'', field_value = visitor_text,
              field_inline = True\<rparr>,
             \<lparr>field_name = EMOJI_OFFICE @ '' Company'', field_value = company_text,
              field_inline = True\<rparr>,
             \<lparr>field_name = EMOJI_CLOCK @ '' Time'', field_value = now_locale_string w,
              field_inline = True\<rparr>],
          footer_text = ''Vageshwar's Digital Twin '' @ EM_DASH @ '' Automated Alert'',
          timestamp = now_iso_string w\<rparr>]\<rparr>"

text \<open>
  \<open>sendDiscordAlert(visitorName, company, message)\<close> of the manual-dispatch server. The
  second component of the result is the list of the requests handed to \<open>fetch\<close>, in
  order: the function is the only place of the tool that calls \<open>fetch\<close>.
\<close>

definition sendDiscordAlert ::
  "world \<Rightarrow> string \<Rightarrow> string \<Rightarrow> string \<Rightarrow> CallToolResult \<times> request list" where
  "sendDiscordAlert w visitorName company message =
     (if falsy (DISCORD_WEBHOOK_URL w) then
        (\<lparr>content_text = ''ERROR: DISCORD_WEBHOOK_URL not set.'', isError = True\<rparr>, [])
      else
        let webhookUrl = or_else (DISCORD_WEBHOOK_URL w) [];
            payload =
              alertPayload w
                (or_else (Some message) ''A high-value visitor interaction was detected.'')
                (or_else (Some visitorName) ''Unknown'')
                (or_else (Some company) ''Not specified'');
            req = POST webhookUrl [(''Content-Type'', ''application/json'')] payload
        in case fetch w req of
             Thrown m \<Rightarrow>
               (\<lparr>content_text = ''Discord alert error: '' @ m, isError = True\<rparr>, [req])
           | Returned res \<Rightarrow>
               if status res = 204 \<or> status res = 200 then
                 (\<lparr>content_text =
                     EMOJI_CHECK @
                     '' Discord alert sent successfully. Vageshwar has been notified about '' @
                     visitorName @ '' from '' @ company @ ''.'',
                   isError = False\<rparr>, [req])
               else
                 (\<lparr>content_text =
                     ''Discord webhook returned HTTP '' @ string_of_nat (status res) @ '': '' @
                     raw_text res,
                   isError = True\<rparr>, [req]))"

text \<open>
  \<open>send_discord_alert(input)\<close> of the service class in \<open>mcp-server/src/index.ts\<close>, which
  returns the text alone. \<open>message\<close> is optional in its input class; the fields of
  the class carry the prefix \<open>input_\<close> here.
\<close>

record DiscordAlertInput =
  input_visitorName :: string
  input_company :: string
  input_message :: "string option"

definition send_discord_alert :: "world \<Rightarrow> DiscordAlertInput \<Rightarrow> string \<times> request list" where
  "send_discord_alert w input =
     (if falsy (DISCORD_WEBHOOK_URL w) then (''ERROR: DISCORD_WEBHOOK_URL not set.'', [])
      else
        let webhookUrl = or_else (DISCORD_WEBHOOK_URL w) [];
            payload =
              alertPayload w
                (or_else (input_message input) ''A high-value visitor interaction was detected.'')
                (or_else (Some (input_visitorName input)) ''Unknown'')
                (or_else (Some (input_company input)) ''Not specified'');
            req = POST webhookUrl [(''Content-Type'', ''application/json'')] payload
        in case fetch w req of
             Thrown m \<Rightarrow> (''Discord alert error: '' @ m, [req])
           | Returned res \<Rightarrow>
               if status res = 204 \<or> status res = 200 then
                 (EMOJI_CHECK @
                  '' Discord alert sent successfully. Vageshwar has been notified about '' @
                  input_visitorName input @ '' from '' @ input_company input @ ''.'', [req])
               else
                 (''Discord webhook returned HTTP '' @ string_of_nat (status res) @ '': '' @
                  raw_text res, [req]))"


section \<open>Dispatch\<close>

text \<open>
  The arguments of a tool call, \<open>request.params.arguments\<close>, with the keys and the
  types that the input schemas of \<open>TOOLS\<close> declare. A key that the caller left out is
  \<open>None\<close>; an absent argument object is the record with every key \<open>None\<close>.
\<close>

record tool_args =
  arg_query :: "string option"
  arg_duration :: "int option"
  arg_visitor_name :: "string option"
  arg_company :: "string option"
  arg_message :: "string option"

text \<open>The \<open>required\<close> lists of the three entries of \<open>TOOLS\<close>.\<close>

definition required_keys :: "string \<Rightarrow> string list" where
  "required_keys name =
     (if name = ''github_search'' then [''query'']
      else if name = ''get_calendar_slots'' then [''duration'']
      else if name = ''send_discord_alert'' then [''visitor_name'', ''company'', ''message'']
      else [])"

definition has_key :: "tool_args \<Rightarrow> string \<Rightarrow> bool" where
  "has_key args k =
     (if k = ''query'' then arg_query args \<noteq> None
      else if k = ''duration'' then arg_duration args \<noteq> None
      else if k = ''visitor_name'' then arg_visitor_name args \<noteq> None
      else if k = ''company'' then arg_company args \<noteq> None
      else if k = ''message'' then arg_message args \<noteq> None
      else False)"

text \<open>
  What the handler of \<open>CallToolRequestSchema\<close> does with a call: it answers at once, or
  it calls one executor and returns what the executor returns.
\<close>

datatype dispatch =
  Answer CallToolResult
| Call_githubSearch string
| Call_getCalendarSlots int
| Call_sendDiscordAlert string string string

definition callTool :: "string \<Rightarrow> tool_args \<Rightarrow> dispatch" where
  "callTool name args =
     (if name = ''github_search'' then
        (case arg_query args of
           None \<Rightarrow>
             Answer \<lparr>content_text = ''ERROR: 'query' argument is required.'', isError = True\<rparr>
         | Some query \<Rightarrow>
             if query = [] then
               Answer \<lparr>content_text = ''ERROR: 'query' argument is required.'', isError = True\<rparr>
             else Call_githubSearch query)
      else if name = ''get_calendar_slots'' then
        (case arg_duration args of
           None \<Rightarrow>
             Answer \<lparr>content_text =
                       ''ERROR: 'duration' argument must be a positive number (minutes).'',
                     isError = True\<rparr>
         | Some duration \<Rightarrow>
             if duration = 0 \<or> duration \<le> 0 then
               Answer \<lparr>content_text =
                         ''ERROR: 'duration' argument must be a positive number (minutes).'',
                       isError = True\<rparr>
             else Call_getCalendarSlots duration)
      else if name = ''send_discord_alert'' then
        (let visitorName = or_else (arg_visitor_name args) ''Unknown'';
             company = or_else (arg_company args) ''Unknown'';
             message = or_else (arg_message args) []
         in Call_sendDiscordAlert visitorName company message)
      else Answer \<lparr>content_text = ''Unknown tool: '' @ name, isError = True\<rparr>)"

text \<open>
  The handler itself, for the calls whose executor is embedded here: the result sent
  back and the requests made on the way. The calendar executor and the code search are
  not followed.
\<close>

definition handle_alert_call :: "world \<Rightarrow> tool_args \<Rightarrow> (CallToolResult \<times> request list) option" where
  "handle_alert_call w args =
     (case callTool ''send_discord_alert'' args of
        Call_sendDiscordAlert visitorName company message \<Rightarrow>
          Some (sendDiscordAlert w visitorName company message)
      | Answer r \<Rightarrow> Some (r, [])
      | _ \<Rightarrow> None)"


section \<open>The tool-call detector\<close>

text \<open>
  The detector belongs to the Python backend (\<open>backend/main.py\<close>). The server's
  sources do not contain it; the README documents its pattern,
  \<^verbatim>\<open>TOOL_PATTERN = re.compile(r"TOOL:(\w+)\|ARGS:(\{[^}]*\})")\<close>
  and that the pattern is searched for anywhere in the response. The definitions of this
  section are modelled from that documentation and from the specification.
\<close>

text \<open>
  Modelled from the spec: the class \<open>\w\<close> of the pattern, missing with the backend.
  It is taken on ASCII: letters, digits and the underscore.
\<close>

definition is_word_char :: "char \<Rightarrow> bool" where
  "is_word_char c =
     (let n = (of_char c :: nat) in
      (48 \<le> n \<and> n \<le> 57) \<or> (65 \<le> n \<and> n \<le> 90) \<or> n = 95 \<or> (97 \<le> n \<and> n \<le> 122))"

text \<open>
  Modelled from the spec: matching a literal piece of the pattern at the head of the
  text; the rest of the text is returned.
\<close>

fun strip_prefix :: "string \<Rightarrow> string \<Rightarrow> string option" where
  "strip_prefix [] s = Some s"
| "strip_prefix (p # ps) [] = None"
| "strip_prefix (p # ps) (c # cs) = (if p = c then strip_prefix ps cs else None)"

text \<open>
  Modelled from the spec: a match of \<open>TOOL_PATTERN\<close> at the head of the text, with its
  two groups, missing with the backend. The greedy \<open>\w+\<close> is followed by \<open>|\<close>, which is
  not a word character, and the greedy \<open>[^}]*\<close> by \<open>}\<close>: giving back characters never
  helps, so each group is the longest run.
\<close>

definition TOOL_PATTERN_match :: "string \<Rightarrow> (string \<times> string) option" where
  "TOOL_PATTERN_match s =
     (case strip_prefix ''TOOL:'' s of
        None \<Rightarrow> None
      | Some r1 \<Rightarrow>
          let name = takeWhile is_word_char r1;
              r2 = dropWhile is_word_char r1
          in if name = [] then None
             else
               (case strip_prefix ''|ARGS:{'' r2 of
                  None \<Rightarrow> None
                | Some r3 \<Rightarrow>
                    let body = takeWhile (\<lambda>c. c \<noteq> CHR ''}'') r3;
                        r4 = dropWhile (\<lambda>c. c \<noteq> CHR ''}'') r3
                    in (case r4 of
                          [] \<Rightarrow> None
                        | c # rest \<Rightarrow> Some (name, CHR ''{'' # body @ [c]))))"

text \<open>
  Modelled from the spec: \<open>TOOL_PATTERN.search(text)\<close>, the match at the leftmost
  position that has one, missing with the backend.
\<close>

fun TOOL_PATTERN_search :: "string \<Rightarrow> (string \<times> string) option" where
  "TOOL_PATTERN_search [] = TOOL_PATTERN_match []"
| "TOOL_PATTERN_search (c # cs) =
     (case TOOL_PATTERN_match (c # cs) of
        Some m \<Rightarrow> Some m
      | None \<Rightarrow> TOOL_PATTERN_search cs)"

text \<open>
  Modelled from the spec: the detector, missing with the backend. It yields zero or one
  directive, the tool name with the parsed arguments; a JSON text that does not parse
  yields none. The JSON parser of the Python library is the parameter \<open>parse\<close>.
\<close>

definition detect_tool_call :: "(string \<Rightarrow> 'a option) \<Rightarrow> string \<Rightarrow> (string \<times> 'a) option" where
  "detect_tool_call parse text =
     (case TOOL_PATTERN_search text of
        None \<Rightarrow> None
      | Some (name, args_text) \<Rightarrow>
          (case parse args_text of
             None \<Rightarrow> None
           | Some args \<Rightarrow> Some (name, args)))"

text \<open>
  Modelled from the spec: the specification's own description of a directive inside a
  text, against which the search of the backend, missing here, is compared. At offset \<open>k\<close> the
  text continues with the marker \<open>TOOL:\<close>, a tool name of word characters, the marker
  \<open>|ARGS:\<close> and a brace-delimited text \<open>{body}\<close> whose body holds no closing brace.
\<close>

definition directive_at :: "string \<Rightarrow> nat \<Rightarrow> string \<Rightarrow> string \<Rightarrow> bool" where
  "directive_at text k name body \<longleftrightarrow>
     k \<le> length text \<and> name \<noteq> [] \<and> list_all is_word_char name \<and> CHR ''}'' \<notin> set body \<and>
     (\<exists>post. drop k text = ''TOOL:'' @ name @ ''|ARGS:{'' @ body @ ''}'' @ post)"

subsection \<open>A JSON reader\<close>

text \<open>
  Modelled from the spec: a reader for JSON texts, standing for \<open>json.loads\<close> of the
  Python library where a concrete parser is needed. It reads objects, arrays, strings
  with the escapes \<open>\"\<close>, \<open>\\\<close>, \<open>\/\<close>, \<open>\n\<close> and \<open>\t\<close>, integers, \<open>true\<close>, \<open>false\<close> and
  \<open>null\<close>, with blanks between tokens; other texts are rejected. The first argument of
  the recursive functions bounds the depth of the recursion.
\<close>

datatype json_value =
  JNull
| JBool bool
| JNumber int
| JString string
| JArray "json_value list"
| JObject "(string \<times> json_value) list"

text \<open>Modelled from the spec: the blanks that JSON allows between tokens.\<close>

definition is_blank :: "char \<Rightarrow> bool" where
  "is_blank c \<longleftrightarrow> c = CHR '' '' \<or> c = CHR 0x09 \<or> c = CHR 0x0A \<or> c = CHR 0x0D"

text \<open>Modelled from the spec: skipping the blanks before a token of a JSON text.\<close>

definition skip_ws :: "string \<Rightarrow> string" where
  "skip_ws s = dropWhile is_blank s"

text \<open>Modelled from the spec: the decimal digits of a JSON number, and their value.\<close>

definition is_digit :: "char \<Rightarrow> bool" where
  "is_digit c \<longleftrightarrow> 48 \<le> (of_char c :: nat) \<and> (of_char c :: nat) \<le> 57"

definition nat_of_digits :: "string \<Rightarrow> nat" where
  "nat_of_digits ds = foldl (\<lambda>n c. 10 * n + (of_char c - 48)) 0 ds"

text \<open>
  Modelled from the spec: the characters of a JSON string literal after its opening
  quote, and the rest of the text.
\<close>

fun read_string :: "string \<Rightarrow> (string \<times> string) option" where
  "read_string [] = None"
| "read_string [c] = (if c = CHR 0x22 then Some ([], []) else None)"
| "read_string (c # d # cs) =
     (if c = CHR 0x22 then Some ([], d # cs)
      else if c = CHR 0x5C then
        (if d = CHR 0x22 \<or> d = CHR 0x5C \<or> d = CHR ''/'' then
           map_option (\<lambda>(str, rest). (d # str, rest)) (read_string cs)
         else if d = CHR ''n'' then
           map_option (\<lambda>(str, rest). (CHR 0x0A # str, rest)) (read_string cs)
         else if d = CHR ''t'' then
           map_option (\<lambda>(str, rest). (CHR 0x09 # str, rest)) (read_string cs)
         else None)
      else if (of_char c :: nat) < 32 then None
      else map_option (\<lambda>(str, rest). (c # str, rest)) (read_string (d # cs)))"

text \<open>Modelled from the spec: a JSON integer, with an optional sign.\<close>

definition read_number :: "string \<Rightarrow> (json_value \<times> string) option" where
  "read_number s =
     (case s of
        [] \<Rightarrow> None
      | c # cs \<Rightarrow>
          if c = CHR ''-'' then
            (if takeWhile is_digit cs = [] then None
             else Some (JNumber (- int (nat_of_digits (takeWhile is_digit cs))),
                        dropWhile is_digit cs))
          else if takeWhile is_digit s = [] then None
          else Some (JNumber (int (nat_of_digits (takeWhile is_digit s))), dropWhile is_digit s))"

text \<open>
  Modelled from the spec: a JSON value, the members of an object after its opening
  brace, and the elements of an array after its opening bracket.
\<close>

fun read_value :: "nat \<Rightarrow> string \<Rightarrow> (json_value \<times> string) option"
  and read_members :: "nat \<Rightarrow> string \<Rightarrow> ((string \<times> json_value) list \<times> string) option"
  and read_elements :: "nat \<Rightarrow> string \<Rightarrow> (json_value list \<times> string) option" where
  "read_value 0 s = None"
| "read_value (Suc n) s =
     (case skip_ws s of
        [] \<Rightarrow> None
      | c # cs \<Rightarrow>
          if c = CHR ''{'' then
            (case skip_ws cs of
               [] \<Rightarrow> None
             | d # ds \<Rightarrow>
                 if d = CHR ''}'' then Some (JObject [], ds)
                 else map_option (\<lambda>(kvs, rest). (JObject kvs, rest)) (read_members n cs))
          else if c = CHR ''['' then
            (case skip_ws cs of
               [] \<Rightarrow> None
             | d # ds \<Rightarrow>
                 if d = CHR '']'' then Some (JArray [], ds)
                 else map_option (\<lambda>(vs, rest). (JArray vs, rest)) (read_elements n cs))
          else if c = CHR 0x22 then
            map_option (\<lambda>(str, rest). (JString str, rest)) (read_string cs)
          else if strip_prefix ''true'' (c # cs) \<noteq> None then Some (JBool True, drop 3 cs)
          else if strip_prefix ''false'' (c # cs) \<noteq> None then Some (JBool False, drop 4 cs)
          else if strip_prefix ''null'' (c # cs) \<noteq> None then Some (JNull, drop 3 cs)
          else read_number (c # cs))"
| "read_members 0 s = None"
| "read_members (Suc n) s =
     (case skip_ws s of
        [] \<Rightarrow> None
      | c # cs \<Rightarrow>
          if c \<noteq> CHR 0x22 then None
          else
            (case read_string cs of
               None \<Rightarrow> None
             | Some (key, r1) \<Rightarrow>
                 (case skip_ws r1 of
                    [] \<Rightarrow> None
                  | d # r2 \<Rightarrow>
                      if d \<noteq> CHR '':'' then None
                      else
                        (case read_value n r2 of
                           None \<Rightarrow> None
                         | Some (v, r3) \<Rightarrow>
                             (case skip_ws r3 of
                                [] \<Rightarrow> None
                              | e # r4 \<Rightarrow>
                                  if e = CHR ''}'' then Some ([(key, v)], r4)
                                  else if e = CHR '','' then
                                    map_option (\<lambda>(kvs, rest). ((key, v) # kvs, rest))
                                      (read_members n r4)
                                  else None)))))"
| "read_elements 0 s = None"
| "read_elements (Suc n) s =
     (case read_value n s of
        None \<Rightarrow> None
      | Some (v, r1) \<Rightarrow>
          (case skip_ws r1 of
             [] \<Rightarrow> None
           | e # r2 \<Rightarrow>
               if e = CHR '']'' then Some ([v], r2)
               else if e = CHR '','' then
                 map_option (\<lambda>(vs, rest). (v # vs, rest)) (read_elements n r2)
               else None))"

text \<open>
  Modelled from the spec: \<open>json.loads\<close>, on the texts described above: one value,
  with nothing but blanks after it.
\<close>

definition json_loads :: "string \<Rightarrow> json_value option" where
  "json_loads s =
     (case read_value (Suc (length s)) s of
        None \<Rightarrow> None
      | Some (v, rest) \<Rightarrow> if skip_ws rest = [] then Some v else None)"


section \<open>A fixture\<close>

text \<open>
  A small outside world on which the theorems are instantiated: the account \<open>u\<close> owns
  one repository, whose README has 21 lines; the code search for \<open>twin\<close> answers with
  no result; every other address answers 404. The library functions are the identity,
  so the README is served as it is.
\<close>

definition example_readme :: string where
  "example_readme = 
     ''line 1\<newline>line 2\<newline>line 3\<newline>line 4\<newline>line 5\<newline>line 6\<newline>line 7\<newline>line 8\<newline>line 9\<newline>line 10\<newline>line 11\<newline>line 12\<newline>line 13\<newline>line 14\<newline>line 15\<newline>line 16\<newline>line 17\<newline>line 18\<newline>line 19\<newline>line 20\<newline>line 21''"

definition example_repo :: GHRepo where
  "example_repo =
     \<lparr>full_name = ''u/twin'', description = Some ''Digital twin'',
      html_url = ''https://github.com/u/twin'', language = Some ''TypeScript'',
      updated_at = ''2026-01-01T00:00:00Z''\<rparr>"

definition example_fetch :: "request \<Rightarrow> response outcome" where
  "example_fetch req =
     (case req of
        GET url hs \<Rightarrow>
          if url = ''https://api.github.com/users/u/repos?type=owner&sort=updated&per_page=30''
          then Returned \<lparr>status = 200, raw_text = [], json = Repos [example_repo]\<rparr>
          else if url = ''https://api.github.com/repos/u/twin/readme''
          then Returned
                 \<lparr>status = 200, raw_text = [],
                  json = FileContent
                           \<lparr>content = Some example_readme, file_path = ''README.md'',
                            file_html_url = ''https://github.com/u/twin/blob/main/README.md''\<rparr>\<rparr>
          else if url = ''https://api.github.com/search/code?q=twin+user:u&per_page=5''
          then Returned \<lparr>status = 200, raw_text = [], json = SearchData 0 []\<rparr>
          else Returned \<lparr>status = 404, raw_text = ''Not Found'', json = OtherJson\<rparr>
      | POST url hs payload \<Rightarrow> Returned \<lparr>status = 204, raw_text = [], json = NotJson\<rparr>)"

definition example_world :: world where
  "example_world =
     \<lparr>GITHUB_TOKEN = Some ''ghp_x'', GITHUB_USERNAME = Some ''u'', DISCORD_WEBHOOK_URL = None,
      fetch = example_fetch, decodeBase64 = (\<lambda>s. s), encodeURIComponent = (\<lambda>s. s),
      toLowerCase = (\<lambda>s. s), now_locale_string = ''Mon, 2 Nov, 09:00 am'',
      now_iso_string = ''2026-11-02T03:30:00.000Z''\<rparr>"

section \<open>The free-slot calculator: proofs\<close>

subsection \<open>The sweep\<close>

lemma emitSlots_mem:
  "s \<in> set (emitSlots t d limit) \<Longrightarrow> t \<le> start s \<and> end' s = start s + d \<and> end' s \<le> limit"
proof (induction t d limit rule: emitSlots.induct)
  case (1 t d limit)
  show ?case
  proof (cases "t + d \<le> limit")
    case True
    with "1.prems" have "s = \<lparr>start = t, end' = t + d\<rparr> \<or> s \<in> set (emitSlots (t + STEP_MS) d limit)"
      by (simp add: emitSlots.simps [of t d limit])
    then show ?thesis
    proof
      assume "s = \<lparr>start = t, end' = t + d\<rparr>"
      with True show ?thesis by simp
    next
      assume "s \<in> set (emitSlots (t + STEP_MS) d limit)"
      with "1.IH" [OF True] show ?thesis by (simp add: STEP_MS_def)
    qed
  next
    case False
    with "1.prems" show ?thesis by (simp add: emitSlots.simps [of t d limit])
  qed
qed

lemma sweep_slots_append:
  "sweep bs c d slots = (fst (sweep bs c d []), slots @ snd (sweep bs c d []))"
proof (induction bs arbitrary: c slots)
  case Nil
  show ?case by simp
next
  case (Cons b bs)
  let ?c1 = "if end' b > c then end' b else c"
  show ?case
  proof (cases "start b - c \<ge> d")
    case True
    have "sweep (b # bs) c d slots = sweep bs ?c1 d (slots @ emitSlots c d (start b))"
      using True by (simp add: Let_def)
    moreover have "sweep (b # bs) c d [] = sweep bs ?c1 d (emitSlots c d (start b))"
      using True by (simp add: Let_def)
    ultimately show ?thesis
      using Cons.IH [of ?c1 "slots @ emitSlots c d (start b)"] Cons.IH [of ?c1 "emitSlots c d (start b)"]
      by simp
  next
    case False
    have "sweep (b # bs) c d slots = sweep bs ?c1 d slots"
      using False by (simp add: Let_def)
    moreover have "sweep (b # bs) c d [] = sweep bs ?c1 d []"
      using False by (simp add: Let_def)
    ultimately show ?thesis
      using Cons.IH [of ?c1 slots] by simp
  qed
qed

lemma sweep_cursor_ge: "c \<le> fst (sweep bs c d slots)"
proof (induction bs arbitrary: c slots)
  case Nil
  show ?case by simp
next
  case (Cons b bs)
  let ?c1 = "if end' b > c then end' b else c"
  have "c \<le> ?c1" by simp
  also have "?c1 \<le> fst (sweep (b # bs) c d slots)"
    using Cons.IH [of ?c1] by (simp add: Let_def)
  finally show ?case .
qed

lemma sweep_cursor_ends: "b \<in> set bs \<Longrightarrow> end' b \<le> fst (sweep bs c d slots)"
proof (induction bs arbitrary: c slots)
  case Nil
  then show ?case by simp
next
  case (Cons a bs)
  let ?c1 = "if end' a > c then end' a else c"
  let ?s1 = "if start a - c \<ge> d then slots @ emitSlots c d (start a) else slots"
  have eq: "sweep (a # bs) c d slots = sweep bs ?c1 d ?s1" by (simp add: Let_def)
  show ?case
  proof (cases "b = a")
    case True
    have "end' a \<le> ?c1" by simp
    also have "?c1 \<le> fst (sweep bs ?c1 d ?s1)" by (rule sweep_cursor_ge)
    finally show ?thesis using True eq by simp
  next
    case False
    with Cons.prems have "b \<in> set bs" by simp
    from Cons.IH [OF this, of ?c1 ?s1] eq show ?thesis by simp
  qed
qed

lemma sweep_new_slot:
  assumes "s \<in> set (snd (sweep bs c d []))"
  shows "c \<le> start s \<and> end' s = start s + d \<and> (\<exists>b\<in>set bs. end' s \<le> start b)"
  using assms
proof (induction bs arbitrary: c)
  case Nil
  then show ?case by simp
next
  case (Cons a bs)
  let ?c1 = "if end' a > c then end' a else c"
  let ?s1 = "if start a - c \<ge> d then emitSlots c d (start a) else []"
  have eq: "sweep (a # bs) c d [] = sweep bs ?c1 d ?s1" by (simp add: Let_def)
  have "snd (sweep bs ?c1 d ?s1) = ?s1 @ snd (sweep bs ?c1 d [])"
    using sweep_slots_append [of bs ?c1 d ?s1] by simp
  with Cons.prems eq have "s \<in> set ?s1 \<or> s \<in> set (snd (sweep bs ?c1 d []))" by simp
  then show ?case
  proof
    assume "s \<in> set ?s1"
    then have "s \<in> set (emitSlots c d (start a))" by (simp split: if_splits)
    from emitSlots_mem [OF this] show ?thesis by simp
  next
    assume "s \<in> set (snd (sweep bs ?c1 d []))"
    from Cons.IH [OF this]
    have ih: "?c1 \<le> start s \<and> end' s = start s + d \<and> (\<exists>b\<in>set bs. end' s \<le> start b)" .
    have "c \<le> ?c1" by simp
    with ih have "c \<le> start s" by linarith
    with ih show ?thesis by auto
  qed
qed

lemma sweep_new_slot_disjoint:
  assumes "sorted (map start bs)" "s \<in> set (snd (sweep bs c d []))" "b \<in> set bs"
  shows "\<not> overlaps s b"
  using assms
proof (induction bs arbitrary: c)
  case Nil
  then show ?case by simp
next
  case (Cons a bs)
  let ?c1 = "if end' a > c then end' a else c"
  let ?s1 = "if start a - c \<ge> d then emitSlots c d (start a) else []"
  have eq: "sweep (a # bs) c d [] = sweep bs ?c1 d ?s1" by (simp add: Let_def)
  have "snd (sweep bs ?c1 d ?s1) = ?s1 @ snd (sweep bs ?c1 d [])"
    using sweep_slots_append [of bs ?c1 d ?s1] by simp
  with Cons.prems(2) eq have "s \<in> set ?s1 \<or> s \<in> set (snd (sweep bs ?c1 d []))" by simp
  then show ?case
  proof
    assume "s \<in> set ?s1"
    then have "s \<in> set (emitSlots c d (start a))" by (simp split: if_splits)
    from emitSlots_mem [OF this] have "end' s \<le> start a" by simp
    moreover from Cons.prems(1,3) have "start a \<le> start b" by auto
    ultimately show ?thesis by (simp add: overlaps_def)
  next
    assume new: "s \<in> set (snd (sweep bs ?c1 d []))"
    show ?thesis
    proof (cases "b = a")
      case True
      from sweep_new_slot [OF new] have "?c1 \<le> start s" by simp
      moreover have "end' a \<le> ?c1" by simp
      ultimately show ?thesis using True by (simp add: overlaps_def)
    next
      case False
      with Cons.prems(3) have "b \<in> set bs" by simp
      moreover from Cons.prems(1) have "sorted (map start bs)" by simp
      ultimately show ?thesis using Cons.IH [OF _ new] by simp
    qed
  qed
qed

lemma computeFreeSlots_mem:
  assumes "s \<in> set (computeFreeSlots busy ws we d)"
  shows "s \<in> set (snd (sweep (sort_key start busy) ws d []))
       \<or> s \<in> set (emitSlots (fst (sweep (sort_key start busy) ws d [])) d we)"
  using assms
  by (auto simp: computeFreeSlots_def Let_def case_prod_beta split: if_splits)

subsection \<open>Removing a block from the sorted list\<close>


lemma insort_key_least:
  "\<forall>v\<in>set vs. f x \<le> f v \<Longrightarrow> insort_key f x vs = x # vs"
  by (cases vs) simp_all

lemma insort_key_beside:
  assumes "\<forall>v\<in>set vs. f b \<le> f v"
  shows "\<exists>us' vs'. insort_key f x (us @ b # vs) = us' @ b # vs'
           \<and> insort_key f x (us @ vs) = us' @ vs' \<and> (\<forall>v\<in>set vs'. f b \<le> f v)"
proof (induction us)
  case Nil
  show ?case
  proof (cases "f x \<le> f b")
    case True
    with assms have "\<forall>v\<in>set vs. f x \<le> f v" by auto
    then have "insort_key f x vs = x # vs" by (rule insort_key_least)
    with True assms have "insort_key f x ([] @ b # vs) = [x] @ b # vs
        \<and> insort_key f x ([] @ vs) = [x] @ vs \<and> (\<forall>v\<in>set vs. f b \<le> f v)"
      by simp
    then show ?thesis by blast
  next
    case False
    with assms have "insort_key f x ([] @ b # vs) = [] @ b # insort_key f x vs
        \<and> insort_key f x ([] @ vs) = [] @ insort_key f x vs
        \<and> (\<forall>v\<in>set (insort_key f x vs). f b \<le> f v)"
      by (auto simp: set_insort_key)
    then show ?thesis by blast
  qed
next
  case (Cons u us)
  show ?case
  proof (cases "f x \<le> f u")
    case True
    with assms have "insort_key f x ((u # us) @ b # vs) = (x # u # us) @ b # vs
        \<and> insort_key f x ((u # us) @ vs) = (x # u # us) @ vs \<and> (\<forall>v\<in>set vs. f b \<le> f v)"
      by simp
    then show ?thesis by blast
  next
    case False
    from Cons.IH obtain us' vs' where
      "insort_key f x (us @ b # vs) = us' @ b # vs'"
      "insort_key f x (us @ vs) = us' @ vs'" "\<forall>v\<in>set vs'. f b \<le> f v"
      by blast
    with False have "insort_key f x ((u # us) @ b # vs) = (u # us') @ b # vs'
        \<and> insort_key f x ((u # us) @ vs) = (u # us') @ vs' \<and> (\<forall>v\<in>set vs'. f b \<le> f v)"
      by simp
    then show ?thesis by blast
  qed
qed

lemma insort_key_here:
  assumes "sorted (map f zs)"
  shows "\<exists>us vs. insort_key f b zs = us @ b # vs \<and> zs = us @ vs \<and> (\<forall>v\<in>set vs. f b \<le> f v)"
  using assms
proof (induction zs)
  case Nil
  then show ?case by simp
next
  case (Cons z zs)
  show ?case
  proof (cases "f b \<le> f z")
    case True
    with Cons.prems have "insort_key f b (z # zs) = [] @ b # (z # zs) \<and> z # zs = [] @ (z # zs)
        \<and> (\<forall>v\<in>set (z # zs). f b \<le> f v)"
      by auto
    then show ?thesis by blast
  next
    case False
    from Cons.prems have "sorted (map f zs)" by simp
    from Cons.IH [OF this] obtain us vs where
      "insort_key f b zs = us @ b # vs" "zs = us @ vs" "\<forall>v\<in>set vs. f b \<le> f v"
      by blast
    with False have "insort_key f b (z # zs) = (z # us) @ b # vs \<and> z # zs = (z # us) @ vs
        \<and> (\<forall>v\<in>set vs. f b \<le> f v)"
      by simp
    then show ?thesis by blast
  qed
qed

lemma sort_key_remove:
  "\<exists>us vs. sort_key f (xs @ b # ys) = us @ b # vs \<and> sort_key f (xs @ ys) = us @ vs
     \<and> (\<forall>v\<in>set vs. f b \<le> f v)"
proof (induction xs)
  case Nil
  have "sorted (map f (sort_key f ys))" by simp
  from insort_key_here [OF this, of b] show ?case by simp
next
  case (Cons x xs)
  from Cons.IH obtain us vs where
    a: "sort_key f (xs @ b # ys) = us @ b # vs" and b: "sort_key f (xs @ ys) = us @ vs"
    and c: "\<forall>v\<in>set vs. f b \<le> f v"
    by blast
  from insort_key_beside [OF c, of x us] a b show ?case by simp
qed

lemma sweep_append:
  "sweep (us @ vs) c d slots = sweep vs (fst (sweep us c d slots)) d (snd (sweep us c d slots))"
  by (induction us arbitrary: c slots) (simp_all add: Let_def)

lemma sweep_covered:
  assumes "0 < d" "start b \<le> c" "end' b \<le> c"
  shows "sweep (b # rest) c d slots = sweep rest c d slots"
  using assms by (simp add: Let_def)

lemma sweep_same_start:
  assumes "0 < d" "start x = start y" "start x \<le> end' x" "start y \<le> end' y"
  shows "sweep (x # y # rest) c d slots =
         sweep rest (max (max c (end' x)) (end' y)) d
           (if d \<le> start x - c then slots @ emitSlots c d (start x) else slots)"
proof (cases "d \<le> start x - c")
  case True
  with assms have "\<not> d \<le> start y - max c (end' x)" by (simp add: max_def)
  with True assms show ?thesis by (simp add: Let_def max_def)
next
  case False
  with assms have "\<not> d \<le> start y - max c (end' x)" by (simp add: max_def)
  with False assms show ?thesis by (simp add: Let_def max_def)
qed

lemma sweep_one:
  "sweep (x # rest) c d slots =
     sweep rest (max c (end' x)) d (if d \<le> start x - c then slots @ emitSlots c d (start x) else slots)"
  by (simp add: Let_def max_def)

lemma sweep_tied:
  assumes "0 < d" "sorted (map start (b2 # vs))" "\<forall>v\<in>set (b2 # vs). start v \<le> end' v"
    and "b1 \<in> set vs" "start b1 \<le> start b2" "end' b2 \<le> end' b1"
  shows "sweep (b2 # vs) c d slots = sweep vs c d slots"
  using assms(2,3,4)
proof (induction vs arbitrary: c slots)
  case Nil
  then show ?case by simp
next
  case (Cons y vs)
  from Cons.prems(1) have "start b2 \<le> start y" by simp
  moreover from Cons.prems(1,3) have "start y \<le> start b1" by auto
  ultimately have sy: "start b2 = start y" using assms(5) by simp
  from Cons.prems(2) have wf: "start b2 \<le> end' b2" "start y \<le> end' y" by simp_all
  show ?case
  proof (cases "y = b1")
    case True
    from assms(6) True have "max (max c (end' b2)) (end' y) = max c (end' y)" by simp
    then show ?thesis
      using sweep_same_start [OF assms(1) sy wf, of vs c slots] sweep_one [of y vs c d slots] sy
      by simp
  next
    case False
    with Cons.prems(3) have b1: "b1 \<in> set vs" by simp
    from Cons.prems(1) have srt: "sorted (map start (b2 # vs))" by simp
    from Cons.prems(2) have wfs: "\<forall>v\<in>set (b2 # vs). start v \<le> end' v" by simp
    have "sweep (b2 # y # vs) c d slots = sweep (y # b2 # vs) c d slots"
      using sweep_same_start [OF assms(1) sy wf, of vs c slots]
        sweep_same_start [OF assms(1) sy [symmetric] wf(2,1), of vs c slots] sy
      by (simp add: max.commute max.left_commute)
    also have "\<dots> = sweep (b2 # vs) (max c (end' y)) d
        (if d \<le> start y - c then slots @ emitSlots c d (start y) else slots)"
      by (rule sweep_one)
    also have "\<dots> = sweep vs (max c (end' y)) d
        (if d \<le> start y - c then slots @ emitSlots c d (start y) else slots)"
      by (rule Cons.IH [OF srt wfs b1])
    also have "\<dots> = sweep (y # vs) c d slots"
      by (rule sweep_one [symmetric])
    finally show ?thesis .
  qed
qed

lemma sweep_contained:
  assumes "0 < d" "sorted (map start (us @ b2 # vs))" "\<forall>v\<in>set (us @ b2 # vs). start v \<le> end' v"
    and "b1 \<in> set (us @ vs)" "start b1 \<le> start b2" "end' b2 \<le> end' b1"
  shows "sweep (us @ b2 # vs) c d slots = sweep (us @ vs) c d slots"
proof (cases "b1 \<in> set us")
  case True
  let ?c1 = "fst (sweep us c d slots)"
  from sweep_cursor_ends [OF True] have "end' b1 \<le> ?c1" .
  with assms(6) have e: "end' b2 \<le> ?c1" by simp
  moreover from assms(3) have "start b2 \<le> end' b2" by simp
  ultimately have s: "start b2 \<le> ?c1" by simp
  show ?thesis
    using sweep_covered [OF assms(1) s e] by (simp add: sweep_append)
next
  case False
  with assms(4) have b1: "b1 \<in> set vs" by simp
  from assms(2) have srt: "sorted (map start (b2 # vs))" by (simp add: sorted_append)
  from assms(3) have wfs: "\<forall>v\<in>set (b2 # vs). start v \<le> end' v" by simp
  show ?thesis
    using sweep_tied [OF assms(1) srt wfs b1 assms(5,6)] by (simp add: sweep_append)
qed

subsection \<open>Properties of the returned slots\<close>

text \<open>
  Claim C1 (slot disjointness). For every list of busy intervals, in any order and
  possibly overlapping, every window and every positive duration, no slot returned by
  \<open>computeFreeSlots\<close> overlaps a busy interval of the input list.
\<close>

theorem C1_slot_disjointness:
  assumes "0 < durationMs"
    and "s \<in> set (computeFreeSlots busy windowStart windowEnd durationMs)"
    and "b \<in> set busy"
  shows "\<not> overlaps s b"
proof -
  let ?bs = "sort_key start busy"
  have b: "b \<in> set ?bs" using assms(3) by simp
  have srt: "sorted (map start ?bs)" by simp
  from computeFreeSlots_mem [OF assms(2)] show ?thesis
  proof
    assume "s \<in> set (snd (sweep ?bs windowStart durationMs []))"
    from sweep_new_slot_disjoint [OF srt this b] show ?thesis .
  next
    assume "s \<in> set (emitSlots (fst (sweep ?bs windowStart durationMs [])) durationMs windowEnd)"
    from emitSlots_mem [OF this]
    have "fst (sweep ?bs windowStart durationMs []) \<le> start s" by simp
    moreover from sweep_cursor_ends [OF b]
    have "end' b \<le> fst (sweep ?bs windowStart durationMs [])" .
    ultimately show ?thesis by (simp add: overlaps_def)
  qed
qed

theorem C1_slot_disjointness_witness:
  "(0::int) < 1800000
   \<and> \<lparr>start = 34200000, end' = 36000000\<rparr>
       \<in> set (computeFreeSlots [\<lparr>start = 36000000, end' = 37800000\<rparr>] 32400000 39600000 1800000)
   \<and> \<lparr>start = 36000000, end' = 37800000\<rparr> \<in> set [\<lparr>start = 36000000, end' = 37800000\<rparr>]
   \<and> \<not> overlaps \<lparr>start = 34200000, end' = 36000000\<rparr> \<lparr>start = 36000000, end' = 37800000\<rparr>"
proof -
  have h1: "(0::int) < 1800000" by simp
  have h2: "\<lparr>start = 34200000, end' = 36000000\<rparr>
      \<in> set (computeFreeSlots [\<lparr>start = 36000000, end' = 37800000\<rparr>] 32400000 39600000 1800000)"
    by code_simp
  have h3: "\<lparr>start = 36000000, end' = 37800000\<rparr> \<in> set [\<lparr>start = 36000000, end' = 37800000\<rparr>]"
    by simp
  from C1_slot_disjointness [OF h1 h2 h3] h1 h2 h3 show ?thesis by blast
qed

text \<open>
  Claim C2 (slot window containment), as amended. The claim as stated fails: a busy
  interval that starts after the end of the window opens a gap that reaches beyond the
  window, and the loop over that gap is bounded by the start of the block only. When
  every busy interval starts no later than \<open>windowEnd\<close>, as the events listed for the
  window do, every returned slot lies within \<open>[windowStart, windowEnd]\<close>.
\<close>

theorem C2_slot_window_containment:
  assumes "0 < durationMs"
    and "\<forall>b\<in>set busy. start b \<le> windowEnd"
    and "s \<in> set (computeFreeSlots busy windowStart windowEnd durationMs)"
  shows "windowStart \<le> start s \<and> end' s \<le> windowEnd"
proof -
  let ?bs = "sort_key start busy"
  from computeFreeSlots_mem [OF assms(3)] show ?thesis
  proof
    assume "s \<in> set (snd (sweep ?bs windowStart durationMs []))"
    from sweep_new_slot [OF this]
    obtain b where "windowStart \<le> start s" "b \<in> set ?bs" "end' s \<le> start b"
      by auto
    with assms(2) show ?thesis by fastforce
  next
    assume "s \<in> set (emitSlots (fst (sweep ?bs windowStart durationMs [])) durationMs windowEnd)"
    from emitSlots_mem [OF this]
    have "fst (sweep ?bs windowStart durationMs []) \<le> start s" "end' s \<le> windowEnd"
      by simp_all
    moreover have "windowStart \<le> fst (sweep ?bs windowStart durationMs [])"
      by (rule sweep_cursor_ge)
    ultimately show ?thesis by simp
  qed
qed

theorem C2_slot_window_containment_witness:
  "(0::int) < 1800000
   \<and> list_all (\<lambda>b. start b \<le> 39600000) [\<lparr>start = 36000000, end' = 37800000\<rparr>]
   \<and> \<lparr>start = 37800000, end' = 39600000\<rparr>
       \<in> set (computeFreeSlots [\<lparr>start = 36000000, end' = 37800000\<rparr>] 32400000 39600000 1800000)
   \<and> 32400000 \<le> start \<lparr>start = 37800000, end' = 39600000\<rparr>
   \<and> end' \<lparr>start = 37800000, end' = 39600000\<rparr> \<le> 39600000"
proof -
  have h1: "(0::int) < 1800000" by simp
  have h2: "\<forall>b\<in>set [\<lparr>start = 36000000, end' = 37800000\<rparr>]. start b \<le> 39600000" by simp
  have h3: "\<lparr>start = 37800000, end' = 39600000\<rparr>
      \<in> set (computeFreeSlots [\<lparr>start = 36000000, end' = 37800000\<rparr>] 32400000 39600000 1800000)"
    by code_simp
  from C2_slot_window_containment [OF h1 h2 h3] h1 h3 show ?thesis by simp
qed

text \<open>
  The claim as stated, refuted: with the window \<open>[0, 3600000]\<close> (one hour), one busy
  interval from \<open>7200000\<close> to \<open>9000000\<close> (after the window) and a duration of 30 minutes,
  the slot from \<open>3600000\<close> to \<open>5400000\<close> is returned, and it ends after the window.
\<close>

theorem C2_slot_window_containment_counterexample:
  "(0::int) < 1800000
   \<and> \<lparr>start = 3600000, end' = 5400000\<rparr>
       \<in> set (computeFreeSlots [\<lparr>start = 7200000, end' = 9000000\<rparr>] 0 3600000 1800000)
   \<and> \<not> end' \<lparr>start = 3600000, end' = 5400000\<rparr> \<le> (3600000::int)"
proof -
  have "\<lparr>start = 3600000, end' = 5400000\<rparr>
      \<in> set (computeFreeSlots [\<lparr>start = 7200000, end' = 9000000\<rparr>] 0 3600000 1800000)"
    by code_simp
  then show ?thesis by simp
qed

subsection \<open>Whole and fractional durations\<close>

lemma truncate_number_of_int: "truncate_number (of_int n) = n"
  by (simp add: truncate_number_def)

lemma new_Date_valid: "valid_time n \<Longrightarrow> new_Date (of_int n) = Date n"
proof -
  assume "valid_time n"
  then have "\<bar>n\<bar> \<le> MAX_TIME" by (simp add: valid_time_def abs_le_iff)
  then have "\<bar>of_int n :: rat\<bar> \<le> of_int MAX_TIME"
    by (metis of_int_abs of_int_le_iff)
  then show ?thesis by (simp add: new_Date_def truncate_number_of_int)
qed

lemma new_Date_of_int_DateD: "new_Date (of_int n) = Date a \<Longrightarrow> a = n"
  by (simp add: new_Date_def truncate_number_of_int split: if_splits)

lemma emitSlots_number_whole:
  "emitSlots_number t (of_int d) limit = map dates_of (emitSlots t d limit)"
proof (induction t d limit rule: emitSlots.induct)
  case (1 t d limit)
  have c: "(of_int t + of_int d \<le> (of_int limit :: rat)) = (t + d \<le> limit)"
    by (metis of_int_add of_int_le_iff)
  show ?case
  proof (cases "t + d \<le> limit")
    case True
    with "1.IH" c show ?thesis
      by (simp add: emitSlots.simps [of t d limit] emitSlots_number.simps [of t "of_int d" limit]
          dates_of_def)
  next
    case False
    with c show ?thesis
      by (simp add: emitSlots.simps [of t d limit] emitSlots_number.simps [of t "of_int d" limit])
  qed
qed

lemma sweep_number_whole:
  "sweep_number bs c (of_int d) (map dates_of slots)
     = (fst (sweep bs c d slots), map dates_of (snd (sweep bs c d slots)))"
proof (induction bs arbitrary: c slots)
  case Nil
  show ?case by simp
next
  case (Cons b bs)
  let ?c1 = "if end' b > c then end' b else c"
  have g: "((of_int d :: rat) \<le> of_int (start b - c)) = (d \<le> start b - c)"
    by (rule of_int_le_iff)
  show ?case
  proof (cases "d \<le> start b - c")
    case True
    have "sweep_number (b # bs) c (of_int d) (map dates_of slots)
        = sweep_number bs ?c1 (of_int d) (map dates_of (slots @ emitSlots c d (start b)))"
      using True g by (simp add: Let_def emitSlots_number_whole)
    moreover have "sweep (b # bs) c d slots = sweep bs ?c1 d (slots @ emitSlots c d (start b))"
      using True by (simp add: Let_def)
    ultimately show ?thesis using Cons.IH [of ?c1 "slots @ emitSlots c d (start b)"] by simp
  next
    case False
    have "sweep_number (b # bs) c (of_int d) (map dates_of slots)
        = sweep_number bs ?c1 (of_int d) (map dates_of slots)"
      using False g by (simp add: Let_def)
    moreover have "sweep (b # bs) c d slots = sweep bs ?c1 d slots"
      using False by (simp add: Let_def)
    ultimately show ?thesis using Cons.IH [of ?c1 slots] by simp
  qed
qed

lemma computeFreeSlots_number_whole:
  "computeFreeSlots_number busy ws we (of_int d) = map dates_of (computeFreeSlots busy ws we d)"
proof -
  let ?bs = "sort_key start busy"
  have s: "sweep_number ?bs ws (of_int d) []
      = (fst (sweep ?bs ws d []), map dates_of (snd (sweep ?bs ws d [])))"
    using sweep_number_whole [of ?bs ws d "[]"] by simp
  have g: "((of_int d :: rat) \<le> of_int (we - fst (sweep ?bs ws d [])))
      = (d \<le> we - fst (sweep ?bs ws d []))"
    by (rule of_int_le_iff)
  show ?thesis
    unfolding computeFreeSlots_number_def computeFreeSlots_def Let_def s
    using g by (simp add: case_prod_beta emitSlots_number_whole)
qed

lemma slot_span_whole:
  assumes "s \<in> set (computeFreeSlots busy ws we d)"
  shows "end' s - start s = d"
proof -
  let ?bs = "sort_key start busy"
  from computeFreeSlots_mem [OF assms] show ?thesis
  proof
    assume "s \<in> set (snd (sweep ?bs ws d []))"
    from sweep_new_slot [OF this] show ?thesis by simp
  next
    assume "s \<in> set (emitSlots (fst (sweep ?bs ws d [])) d we)"
    from emitSlots_mem [OF this] show ?thesis by simp
  qed
qed

lemma slot_bounds:
  assumes "s \<in> set (computeFreeSlots busy ws we d)"
  shows "ws \<le> start s \<and> (end' s \<le> we \<or> (\<exists>b\<in>set busy. end' s \<le> start b))"
proof -
  let ?bs = "sort_key start busy"
  from computeFreeSlots_mem [OF assms] show ?thesis
  proof
    assume "s \<in> set (snd (sweep ?bs ws d []))"
    from sweep_new_slot [OF this] show ?thesis by auto
  next
    assume "s \<in> set (emitSlots (fst (sweep ?bs ws d [])) d we)"
    from emitSlots_mem [OF this]
    have "fst (sweep ?bs ws d []) \<le> start s" "end' s \<le> we" by simp_all
    moreover have "ws \<le> fst (sweep ?bs ws d [])" by (rule sweep_cursor_ge)
    ultimately show ?thesis by simp
  qed
qed

text \<open>
  Claim C3 (slot duration exactness), as amended. The claim as stated fails when the
  requested duration is not a whole number of milliseconds, since a date holds whole
  milliseconds only. For every list of busy intervals, every window and every requested
  duration that is a whole number of milliseconds, every returned slot whose start and
  end are valid dates spans exactly the requested duration; and when the duration is
  positive and the window and the busy intervals are valid dates, every returned slot has
  a valid start and a valid end, and spans exactly the requested duration.
\<close>

theorem C3_slot_duration_exact:
  assumes "durationMs \<in> \<int>"
    and "s \<in> set (computeFreeSlots_number busy windowStart windowEnd durationMs)"
  shows "(slot_start s = Date a \<and> slot_end s = Date b \<longrightarrow> of_int (b - a) = durationMs)
         \<and> (0 < durationMs \<and> valid_time windowStart \<and> valid_time windowEnd
              \<and> list_all (\<lambda>b. valid_time (start b) \<and> valid_time (end' b)) busy
            \<longrightarrow> (\<exists>a b. slot_start s = Date a \<and> slot_end s = Date b
                    \<and> of_int (b - a) = durationMs))"
proof -
  from assms(1) obtain d where d: "durationMs = of_int d" by (auto elim: Ints_cases)
  from assms(2) d obtain s' where s': "s' \<in> set (computeFreeSlots busy windowStart windowEnd d)"
    and s: "s = dates_of s'"
    by (auto simp: computeFreeSlots_number_whole)
  have span: "end' s' - start s' = d" by (rule slot_span_whole [OF s'])
  have one: "slot_start s = Date a \<and> slot_end s = Date b \<longrightarrow> of_int (b - a) = durationMs"
  proof
    assume v: "slot_start s = Date a \<and> slot_end s = Date b"
    with s have "a = start s'" "b = end' s'"
      by (auto simp: dates_of_def dest: new_Date_of_int_DateD)
    with span d show "of_int (b - a) = durationMs" by simp
  qed
  have two: "0 < durationMs \<and> valid_time windowStart \<and> valid_time windowEnd
              \<and> list_all (\<lambda>b. valid_time (start b) \<and> valid_time (end' b)) busy
            \<longrightarrow> (\<exists>a b. slot_start s = Date a \<and> slot_end s = Date b
                    \<and> of_int (b - a) = durationMs)"
  proof
    assume h: "0 < durationMs \<and> valid_time windowStart \<and> valid_time windowEnd
              \<and> list_all (\<lambda>b. valid_time (start b) \<and> valid_time (end' b)) busy"
    with d have pos: "0 < d" by simp
    from slot_bounds [OF s'] have lo: "windowStart \<le> start s'"
      and hi: "end' s' \<le> windowEnd \<or> (\<exists>b\<in>set busy. end' s' \<le> start b)" by simp_all
    from hi h have "end' s' \<le> MAX_TIME"
      by (auto simp: valid_time_def list_all_iff)
    moreover from lo h have "- MAX_TIME \<le> start s'" by (simp add: valid_time_def)
    ultimately have "valid_time (start s')" "valid_time (end' s')"
      using span pos by (simp_all add: valid_time_def)
    then have "slot_start s = Date (start s')" "slot_end s = Date (end' s')"
      using s by (simp_all add: dates_of_def new_Date_valid)
    with span d show "\<exists>a b. slot_start s = Date a \<and> slot_end s = Date b
                    \<and> of_int (b - a) = durationMs"
      by simp
  qed
  from one two show ?thesis by simp
qed

theorem C3_slot_duration_exact_witness:
  "(1800000::rat) \<in> \<int>
   \<and> \<lparr>slot_start = Date 32400000, slot_end = Date 34200000\<rparr>
       \<in> set (computeFreeSlots_number [\<lparr>start = 36000000, end' = 37800000\<rparr>]
                32400000 39600000 1800000)
   \<and> (0::rat) < 1800000
   \<and> valid_time 32400000 \<and> valid_time 39600000
   \<and> list_all (\<lambda>b. valid_time (start b) \<and> valid_time (end' b))
         [\<lparr>start = 36000000, end' = 37800000\<rparr>]
   \<and> (of_int (34200000 - 32400000) :: rat) = 1800000"
proof -
  let ?s = "\<lparr>slot_start = Date 32400000, slot_end = Date 34200000\<rparr>"
  have h1: "(1800000::rat) \<in> \<int>" by simp
  have h2: "?s \<in> set (computeFreeSlots_number [\<lparr>start = 36000000, end' = 37800000\<rparr>]
      32400000 39600000 1800000)"
    by code_simp
  have h3: "(0::rat) < 1800000" by simp
  have h4: "valid_time 32400000" "valid_time 39600000"
    by (simp_all add: valid_time_def MAX_TIME_def)
  have h5: "list_all (\<lambda>b. valid_time (start b) \<and> valid_time (end' b))
      [\<lparr>start = 36000000, end' = 37800000\<rparr>]"
    by (simp add: valid_time_def MAX_TIME_def)
  from C3_slot_duration_exact [OF h1 h2, of 32400000 34200000] h1 h2 h3 h4 h5
  show ?thesis by simp
qed

text \<open>
  The claim as stated, refuted. A requested duration of 1.00001 minutes passes the check
  of the dispatcher and reaches the function as 60000.6 milliseconds; with an empty
  calendar and the window \<open>[0, 3600000]\<close> the first slot runs from \<open>0\<close> to \<open>60000\<close>, a
  span of 60000. And with the whole duration \<open>-10\<close> and a window that starts at the
  earliest date, the end of the only slot is an invalid date, which has no span.
\<close>

theorem C3_slot_duration_exact_counterexample:
  "\<lparr>slot_start = Date 0, slot_end = Date 60000\<rparr>
       \<in> set (computeFreeSlots_number [] 0 3600000 (300003 / 5))
   \<and> (of_int (60000 - 0) :: rat) \<noteq> 300003 / 5
   \<and> computeFreeSlots_number [] (- 8640000000000000) (- 8640000000000000 + 20) (- 10)
       = [\<lparr>slot_start = Date (- 8640000000000000), slot_end = Invalid_Date\<rparr>]"
proof -
  have a: "\<lparr>slot_start = Date 0, slot_end = Date 60000\<rparr>
      \<in> set (computeFreeSlots_number [] 0 3600000 (300003 / 5))"
    by code_simp
  have b: "(of_int (60000 - 0) :: rat) \<noteq> 300003 / 5" by simp
  have c: "computeFreeSlots_number [] (- 8640000000000000) (- 8640000000000000 + 20) (- 10)
      = [\<lparr>slot_start = Date (- 8640000000000000), slot_end = Invalid_Date\<rparr>]"
    by code_simp
  from a b c show ?thesis by blast
qed

text \<open>
  Claim C4 (scenario A). Times are milliseconds since midnight: 09:00 is \<open>32400000\<close>,
  09:30 is \<open>34200000\<close>, 10:00 is \<open>36000000\<close>, 10:30 is \<open>37800000\<close> and 11:00 is
  \<open>39600000\<close>. With the busy interval (10:00, 10:30), the window [09:00, 11:00] and a
  duration of 30 minutes, \<open>computeFreeSlots\<close> returns the three slots (09:00, 09:30),
  (09:30, 10:00) and (10:30, 11:00), in that order.
\<close>

theorem C4_scenario_A:
  "computeFreeSlots [\<lparr>start = 36000000, end' = 37800000\<rparr>] 32400000 39600000 (30 * 60 * 1000)
   = [\<lparr>start = 32400000, end' = 34200000\<rparr>,
      \<lparr>start = 34200000, end' = 36000000\<rparr>,
      \<lparr>start = 37800000, end' = 39600000\<rparr>]"
  by code_simp

text \<open>
  Claim C10 (contained busy intervals), as amended. When the requested duration is
  positive and every busy interval of the list has its start no later than its end, a
  busy interval \<open>b2\<close> contained in another interval \<open>b1\<close> of the list does not change
  the result: \<open>computeFreeSlots\<close> returns the same slots with \<open>b2\<close> removed. The list
  is written \<open>xs @ b2 # ys\<close>, so that \<open>b1\<close> is an element at another position, and
  it may be equal to \<open>b2\<close>. The cursor of the sweep never moves backward.
\<close>

theorem C10_contained_interval_removed:
  assumes "0 < durationMs"
    and "\<forall>v\<in>set (xs @ b2 # ys). start v \<le> end' v"
    and "b1 \<in> set (xs @ ys)"
    and "start b1 \<le> start b2"
    and "end' b2 \<le> end' b1"
  shows "computeFreeSlots (xs @ b2 # ys) windowStart windowEnd durationMs
           = computeFreeSlots (xs @ ys) windowStart windowEnd durationMs
         \<and> cursor \<le> fst (sweep bs cursor durationMs slots)"
proof -
  from sort_key_remove [of start xs b2 ys] obtain us vs where
    a: "sort_key start (xs @ b2 # ys) = us @ b2 # vs" and b: "sort_key start (xs @ ys) = us @ vs"
    by blast
  have "sorted (map start (sort_key start (xs @ b2 # ys)))" by simp
  with a have srt: "sorted (map start (us @ b2 # vs))" by simp
  have "set (sort_key start (xs @ b2 # ys)) = set (xs @ b2 # ys)" by simp
  with a assms(2) have wfs: "\<forall>v\<in>set (us @ b2 # vs). start v \<le> end' v" by metis
  have "set (sort_key start (xs @ ys)) = set (xs @ ys)" by simp
  with b assms(3) have b1: "b1 \<in> set (us @ vs)" by metis
  have "sweep (us @ b2 # vs) windowStart durationMs [] = sweep (us @ vs) windowStart durationMs []"
    by (rule sweep_contained [OF assms(1) srt wfs b1 assms(4,5)])
  with a b have "computeFreeSlots (xs @ b2 # ys) windowStart windowEnd durationMs
      = computeFreeSlots (xs @ ys) windowStart windowEnd durationMs"
    by (simp add: computeFreeSlots_def)
  moreover have "cursor \<le> fst (sweep bs cursor durationMs slots)"
    by (rule sweep_cursor_ge)
  ultimately show ?thesis by simp
qed

theorem C10_contained_interval_removed_witness:
  "(0::int) < 1800000
   \<and> list_all (\<lambda>v. start v \<le> end' v)
       ([\<lparr>start = 36000000, end' = 39600000\<rparr>] @ \<lparr>start = 37800000, end' = 38000000\<rparr> # [])
   \<and> \<lparr>start = 36000000, end' = 39600000\<rparr> \<in> set ([\<lparr>start = 36000000, end' = 39600000\<rparr>] @ [])
   \<and> start \<lparr>start = 36000000, end' = 39600000\<rparr> \<le> start \<lparr>start = 37800000, end' = 38000000\<rparr>
   \<and> end' \<lparr>start = 37800000, end' = 38000000\<rparr> \<le> end' \<lparr>start = 36000000, end' = 39600000\<rparr>
   \<and> computeFreeSlots
         ([\<lparr>start = 36000000, end' = 39600000\<rparr>] @ \<lparr>start = 37800000, end' = 38000000\<rparr> # [])
         32400000 43200000 1800000
       = computeFreeSlots ([\<lparr>start = 36000000, end' = 39600000\<rparr>] @ []) 32400000 43200000 1800000
   \<and> (32400000::int) \<le> fst (sweep [\<lparr>start = 36000000, end' = 39600000\<rparr>] 32400000 1800000 [])"
proof -
  have h1: "(0::int) < 1800000" by simp
  have h2: "\<forall>v\<in>set ([\<lparr>start = 36000000, end' = 39600000\<rparr>] @ \<lparr>start = 37800000, end' = 38000000\<rparr> # []).
      start v \<le> end' v"
    by simp
  have h3: "\<lparr>start = 36000000, end' = 39600000\<rparr> \<in> set ([\<lparr>start = 36000000, end' = 39600000\<rparr>] @ [])"
    by simp
  have h4: "start \<lparr>start = 36000000, end' = 39600000\<rparr> \<le> start \<lparr>start = 37800000, end' = 38000000\<rparr>"
    by simp
  have h5: "end' \<lparr>start = 37800000, end' = 38000000\<rparr> \<le> end' \<lparr>start = 36000000, end' = 39600000\<rparr>"
    by simp
  from C10_contained_interval_removed [OF h1 h2 h3 h4 h5,
      of 32400000 43200000 32400000 "[\<lparr>start = 36000000, end' = 39600000\<rparr>]" "[]"]
  show ?thesis by simp
qed

text \<open>
  The claim as stated, refuted twice. First, with a negative duration, which the
  \<open>get_calendar_slots\<close> tool of \<open>mcp-server/src/index.ts\<close> passes on
  (\<open>input.durationMinutes || 30\<close> keeps \<open>-1\<close>, that is \<open>-60000\<close> milliseconds): the
  block from \<open>5\<close> to \<open>8\<close> is contained in the block from \<open>0\<close> to \<open>10\<close>, and it adds
  a slot. Second, with a duration of 30 minutes and a pair whose end precedes its start:
  \<open>(7200000, 1800000)\<close> satisfies both inequalities of the claim against
  \<open>(0, 3600000)\<close>, and it adds two slots.
\<close>

theorem C10_contained_interval_removed_counterexample:
  "start \<lparr>start = 0, end' = 10\<rparr> \<le> start \<lparr>start = 5, end' = 8\<rparr>
   \<and> end' \<lparr>start = 5, end' = 8\<rparr> \<le> end' \<lparr>start = 0, end' = 10\<rparr>
   \<and> computeFreeSlots [\<lparr>start = 0, end' = 10\<rparr>, \<lparr>start = 5, end' = 8\<rparr>] 0 20 (- 60000)
       \<noteq> computeFreeSlots [\<lparr>start = 0, end' = 10\<rparr>] 0 20 (- 60000)
   \<and> start \<lparr>start = 0, end' = 3600000\<rparr> \<le> start \<lparr>start = 7200000, end' = 1800000\<rparr>
   \<and> end' \<lparr>start = 7200000, end' = 1800000\<rparr> \<le> end' \<lparr>start = 0, end' = 3600000\<rparr>
   \<and> computeFreeSlots [\<lparr>start = 0, end' = 3600000\<rparr>, \<lparr>start = 7200000, end' = 1800000\<rparr>]
         0 10800000 1800000
       \<noteq> computeFreeSlots [\<lparr>start = 0, end' = 3600000\<rparr>] 0 10800000 1800000"
proof -
  have a: "computeFreeSlots [\<lparr>start = 0, end' = 10\<rparr>, \<lparr>start = 5, end' = 8\<rparr>] 0 20 (- 60000)
      = [\<lparr>start = 0, end' = - 60000\<rparr>, \<lparr>start = 10, end' = - 59990\<rparr>,
         \<lparr>start = 10, end' = - 59990\<rparr>]"
    by code_simp
  have b: "computeFreeSlots [\<lparr>start = 0, end' = 10\<rparr>] 0 20 (- 60000)
      = [\<lparr>start = 0, end' = - 60000\<rparr>, \<lparr>start = 10, end' = - 59990\<rparr>]"
    by code_simp
  have c: "length (computeFreeSlots
      [\<lparr>start = 0, end' = 3600000\<rparr>, \<lparr>start = 7200000, end' = 1800000\<rparr>] 0 10800000 1800000) = 6"
    by code_simp
  have d: "length (computeFreeSlots [\<lparr>start = 0, end' = 3600000\<rparr>] 0 10800000 1800000) = 4"
    by code_simp
  from c d have "computeFreeSlots
      [\<lparr>start = 0, end' = 3600000\<rparr>, \<lparr>start = 7200000, end' = 1800000\<rparr>] 0 10800000 1800000
      \<noteq> computeFreeSlots [\<lparr>start = 0, end' = 3600000\<rparr>] 0 10800000 1800000"
    by auto
  with a b show ?thesis by simp
qed


section \<open>Lines of a text: proofs\<close>

lemma split_nl_nonempty: "split_nl s \<noteq> []"
  by (induction s) (auto split: list.splits)

lemma split_nl_append: "split_nl (a @ NL # b) = split_nl a @ split_nl b"
proof (induction a)
  case Nil
  show ?case by simp
next
  case (Cons c a)
  obtain l ls where l: "split_nl a = l # ls"
    using split_nl_nonempty [of a] by (cases "split_nl a") auto
  with Cons show ?case by simp
qed

lemma split_nl_single: "NL \<notin> set s \<Longrightarrow> split_nl s = [s]"
  by (induction s) auto

lemma split_nl_lines: "l \<in> set (split_nl s) \<Longrightarrow> NL \<notin> set l"
proof (induction s arbitrary: l)
  case Nil
  then show ?case by simp
next
  case (Cons c s)
  obtain k ks where k: "split_nl s = k # ks"
    using split_nl_nonempty [of s] by (cases "split_nl s") auto
  show ?case
  proof (cases "c = NL")
    case True
    with Cons.prems have "l = [] \<or> l \<in> set (split_nl s)" by simp
    with Cons.IH show ?thesis by auto
  next
    case False
    with Cons.prems k have "l = c # k \<or> l \<in> set ks" by simp
    then show ?thesis
    proof
      assume "l = c # k"
      moreover have "NL \<notin> set k" using Cons.IH [of k] k by simp
      ultimately show ?thesis using False by auto
    next
      assume "l \<in> set ks"
      then show ?thesis using Cons.IH [of l] k by simp
    qed
  qed
qed

lemma split_nl_join:
  "xs \<noteq> [] \<Longrightarrow> \<forall>l\<in>set xs. NL \<notin> set l \<Longrightarrow> split_nl (join [NL] xs) = xs"
proof (induction "[NL]" xs rule: join.induct)
  case 1
  then show ?case by simp
next
  case (2 x)
  then show ?case by (simp add: split_nl_single)
next
  case (3 x y ys)
  then show ?case by (simp add: split_nl_append split_nl_single)
qed

lemma join_split_nl: "join [NL] (split_nl s) = s"
proof (induction s)
  case Nil
  show ?case by simp
next
  case (Cons c s)
  obtain k ks where k: "split_nl s = k # ks"
    using split_nl_nonempty [of s] by (cases "split_nl s") auto
  with Cons show ?case by (cases ks) auto
qed

lemma digit_char_not_NL: "k < 10 \<Longrightarrow> digit_char k \<noteq> NL"
proof
  assume k: "k < 10" and "digit_char k = NL"
  then have "of_char (char_of (48 + k) :: char) = (of_char (CHR 0x0A) :: nat)"
    by (simp add: digit_char_def NL_def)
  with k show False by simp
qed

lemma string_of_nat_no_NL: "NL \<notin> set (string_of_nat n)"
proof (induction n rule: string_of_nat.induct)
  case (1 n)
  show ?case
  proof (cases "n < 10")
    case True
    then show ?thesis using digit_char_not_NL [of n] by (simp add: string_of_nat.simps [of n])
  next
    case False
    with "1" have "NL \<notin> set (string_of_nat (n div 10))" by simp
    moreover have "digit_char (n mod 10) \<noteq> NL" by (rule digit_char_not_NL) simp
    ultimately show ?thesis using False by (simp add: string_of_nat.simps [of n])
  qed
qed

lemma string_of_int_no_NL: "NL \<notin> set (string_of_int i)"
proof -
  have "CHR ''-'' \<noteq> NL" by (simp add: NL_def)
  then show ?thesis
    using string_of_nat_no_NL [of "nat (- i)"] string_of_nat_no_NL [of "nat i"]
    by (auto simp: string_of_int_def)
qed

lemma truncateCode_short:
  "length (split_nl code) \<le> maxLines \<Longrightarrow> truncateCode code maxLines = code"
  by (simp add: truncateCode_def)

lemma truncateCode_20_lines:
  assumes "20 < length (split_nl code)"
  shows "split_nl (truncateCode code 20) =
           take 20 (split_nl code)
           @ [[], ''  ... ('' @ string_of_int (int (length (split_nl code)) - 35) @ '' lines omitted) ...'', []]
           @ drop (length (split_nl code) - 15) (split_nl code)"
proof -
  let ?ls = "split_nl code"
  let ?m = "''  ... ('' @ string_of_int (int (length ?ls) - 35) @ '' lines omitted) ...''"
  let ?hd = "take 20 ?ls"
  let ?tl = "drop (length ?ls - 15) ?ls"
  have sl: "slice_from (int (length ?ls) - 15) ?ls = ?tl"
    using assms by (simp add: slice_from_def nat_diff_distrib')
  have tc: "truncateCode code 20 = join [NL] ?hd @ NL # ([] @ NL # (?m @ NL # ([] @ NL # join [NL] ?tl)))"
    using assms sl by (simp add: truncateCode_def Let_def)
  have lines: "\<forall>l\<in>set ?ls. NL \<notin> set l" using split_nl_lines by blast
  have "\<forall>l\<in>set ?hd. NL \<notin> set l" using lines by (meson in_set_takeD)
  moreover have "?hd \<noteq> []" using assms by auto
  ultimately have h: "split_nl (join [NL] ?hd) = ?hd" by (rule split_nl_join [rotated])
  have "\<forall>l\<in>set ?tl. NL \<notin> set l" using lines by (meson in_set_dropD)
  moreover have "?tl \<noteq> []" using assms by auto
  ultimately have t: "split_nl (join [NL] ?tl) = ?tl" by (rule split_nl_join [rotated])
  have m: "split_nl ?m = [?m]"
    by (rule split_nl_single) (simp add: string_of_int_no_NL, simp add: NL_def)
  show ?thesis
    unfolding tc split_nl_append h t m by simp
qed


section \<open>The tools: proofs\<close>

subsection \<open>Dispatch\<close>

text \<open>
  Claim C5 (dispatch precondition), evaluated on the handler. For \<open>github_search\<close>
  and \<open>get_calendar_slots\<close> a call without the required key is answered with an error
  result that names the key, and no executor is called. For \<open>send_discord_alert\<close>,
  whose schema declares \<open>visitor_name\<close>, \<open>company\<close> and \<open>message\<close> required, the
  handler replaces the three missing values by \<open>Unknown\<close>, \<open>Unknown\<close> and the empty
  string and calls the executor, which posts to the webhook whenever one is configured.
\<close>

theorem C5_dispatch_missing_required_key:
  "callTool ''github_search'' (args\<lparr>arg_query := None\<rparr>)
     = Answer \<lparr>content_text = ''ERROR: 'query' argument is required.'', isError = True\<rparr>
   \<and> callTool ''get_calendar_slots'' (args\<lparr>arg_duration := None\<rparr>)
     = Answer \<lparr>content_text = ''ERROR: 'duration' argument must be a positive number (minutes).'',
               isError = True\<rparr>
   \<and> required_keys ''send_discord_alert'' = [''visitor_name'', ''company'', ''message'']
   \<and> has_key \<lparr>arg_query = None, arg_duration = None, arg_visitor_name = None,
               arg_company = None, arg_message = None\<rparr> ''visitor_name'' = False
   \<and> callTool ''send_discord_alert''
         \<lparr>arg_query = None, arg_duration = None, arg_visitor_name = None,
          arg_company = None, arg_message = None\<rparr>
     = Call_sendDiscordAlert ''Unknown'' ''Unknown'' []
   \<and> handle_alert_call w
         \<lparr>arg_query = None, arg_duration = None, arg_visitor_name = None,
          arg_company = None, arg_message = None\<rparr>
     = Some (sendDiscordAlert w ''Unknown'' ''Unknown'' [])
   \<and> length (snd (sendDiscordAlert w ''Unknown'' ''Unknown'' []))
     = (if falsy (DISCORD_WEBHOOK_URL w) then 0 else 1)"
proof -
  have a: "callTool ''github_search'' (args\<lparr>arg_query := None\<rparr>)
      = Answer \<lparr>content_text = ''ERROR: 'query' argument is required.'', isError = True\<rparr>"
    by (simp add: callTool_def)
  have b: "callTool ''get_calendar_slots'' (args\<lparr>arg_duration := None\<rparr>)
      = Answer \<lparr>content_text = ''ERROR: 'duration' argument must be a positive number (minutes).'',
               isError = True\<rparr>"
    by (simp add: callTool_def)
  have c: "required_keys ''send_discord_alert'' = [''visitor_name'', ''company'', ''message'']"
    by (simp add: required_keys_def)
  have d: "has_key \<lparr>arg_query = None, arg_duration = None, arg_visitor_name = None,
               arg_company = None, arg_message = None\<rparr> ''visitor_name'' = False"
    by (simp add: has_key_def)
  have e: "callTool ''send_discord_alert''
         \<lparr>arg_query = None, arg_duration = None, arg_visitor_name = None,
          arg_company = None, arg_message = None\<rparr>
      = Call_sendDiscordAlert ''Unknown'' ''Unknown'' []"
    by (simp add: callTool_def or_else_def)
  have f: "handle_alert_call w
         \<lparr>arg_query = None, arg_duration = None, arg_visitor_name = None,
          arg_company = None, arg_message = None\<rparr>
      = Some (sendDiscordAlert w ''Unknown'' ''Unknown'' [])"
    unfolding handle_alert_call_def e by simp
  have g: "length (snd (sendDiscordAlert w ''Unknown'' ''Unknown'' []))
      = (if falsy (DISCORD_WEBHOOK_URL w) then 0 else 1)"
    by (simp add: sendDiscordAlert_def Let_def split: outcome.splits)
  from a b c d e f g show ?thesis by blast
qed

subsection \<open>The alert tool\<close>

text \<open>
  Claim C6 (unconfigured webhook). When \<open>DISCORD_WEBHOOK_URL\<close> is unset or empty,
  \<open>sendDiscordAlert\<close> returns the error result \<open>ERROR: DISCORD_WEBHOOK_URL not set.\<close> with
  \<open>isError\<close> set and hands no request to \<open>fetch\<close>; the tool of the service class returns
  the same text, and makes no request either.
\<close>

theorem C6_alert_unconfigured:
  assumes "falsy (DISCORD_WEBHOOK_URL w)"
  shows "sendDiscordAlert w visitorName company message
           = (\<lparr>content_text = ''ERROR: DISCORD_WEBHOOK_URL not set.'', isError = True\<rparr>, [])
         \<and> send_discord_alert w input = (''ERROR: DISCORD_WEBHOOK_URL not set.'', [])"
  using assms by (simp add: sendDiscordAlert_def send_discord_alert_def)

theorem C6_alert_unconfigured_witness:
  "falsy (DISCORD_WEBHOOK_URL example_world)
   \<and> sendDiscordAlert example_world ''Ada'' ''Acme'' ''wants a call''
       = (\<lparr>content_text = ''ERROR: DISCORD_WEBHOOK_URL not set.'', isError = True\<rparr>, [])
   \<and> send_discord_alert example_world
         \<lparr>input_visitorName = ''Ada'', input_company = ''Acme'', input_message = None\<rparr>
       = (''ERROR: DISCORD_WEBHOOK_URL not set.'', [])"
proof -
  have h: "falsy (DISCORD_WEBHOOK_URL example_world)"
    by (simp add: falsy_def example_world_def)
  from C6_alert_unconfigured [OF h] h show ?thesis by blast
qed

subsection \<open>The code-search tool\<close>

lemma fallback_error_from_listing:
  assumes "fallbackRepoSearch w query username = Returned r" "isError r"
  shows "\<exists>reposRes. fetch w (GET (reposUrl username) (githubHeaders w)) = Returned reposRes
           \<and> \<not> ok reposRes"
  using assms
  by (auto simp: fallbackRepoSearch_def await_def res_json_def Let_def
           split: outcome.splits json_body.splits if_splits)

lemma githubSearch_try_empty:
  assumes "fetch w (GET (searchUrl w query username) (githubHeaders w)) = Returned searchRes"
    and "ok searchRes" "json searchRes = SearchData total_count items"
    and "total_count = 0 \<or> items = []"
  shows "githubSearch_try w query username = fallbackRepoSearch w query username"
  using assms by (auto simp: githubSearch_try_def await_def res_json_def)

text \<open>
  Claim C8 (fallback path). With the credentials set, when the code-search endpoint
  answers with a success status and reports no result (\<open>total_count = 0\<close> or no item),
  \<open>githubSearch\<close> returns what \<open>fallbackRepoSearch\<close> returns (an error thrown inside the
  fallback is caught by the \<open>catch\<close> of \<open>githubSearch\<close>). The result is an error only
  when the fallback itself fails: it throws, or the listing of the repositories answers
  with a failure status.
\<close>

theorem C8_empty_search_falls_back:
  assumes "\<not> falsy (GITHUB_TOKEN w)" and "GITHUB_USERNAME w = Some username" and "username \<noteq> []"
    and "fetch w (GET (searchUrl w query username) (githubHeaders w)) = Returned searchRes"
    and "ok searchRes" and "json searchRes = SearchData total_count items"
    and "total_count = 0 \<or> items = []"
  shows "githubSearch w query =
           (case fallbackRepoSearch w query username of
              Returned r \<Rightarrow> r
            | Thrown m \<Rightarrow> \<lparr>content_text = ''GitHub search error: '' @ m, isError = True\<rparr>)
         \<and> (isError (githubSearch w query) \<longrightarrow>
              (\<exists>m. fallbackRepoSearch w query username = Thrown m)
              \<or> (\<exists>reposRes. fetch w (GET (reposUrl username) (githubHeaders w)) = Returned reposRes
                    \<and> \<not> ok reposRes))"
proof -
  have u: "or_else (GITHUB_USERNAME w) [] = username" "\<not> falsy (GITHUB_USERNAME w)"
    using assms(2,3) by (simp_all add: or_else_def falsy_def)
  have t: "githubSearch_try w query username = fallbackRepoSearch w query username"
    by (rule githubSearch_try_empty [OF assms(4-7)])
  have g: "githubSearch w query =
           (case fallbackRepoSearch w query username of
              Returned r \<Rightarrow> r
            | Thrown m \<Rightarrow> \<lparr>content_text = ''GitHub search error: '' @ m, isError = True\<rparr>)"
    using assms(1) u t by (simp add: githubSearch_def)
  have "isError (githubSearch w query) \<longrightarrow>
              (\<exists>m. fallbackRepoSearch w query username = Thrown m)
              \<or> (\<exists>reposRes. fetch w (GET (reposUrl username) (githubHeaders w)) = Returned reposRes
                    \<and> \<not> ok reposRes)"
  proof (cases "fallbackRepoSearch w query username")
    case (Returned r)
    with g have "githubSearch w query = r" by simp
    with fallback_error_from_listing [OF Returned] show ?thesis by simp
  next
    case (Thrown m)
    then show ?thesis by simp
  qed
  with g show ?thesis by simp
qed

theorem C8_empty_search_falls_back_witness:
  "\<not> falsy (GITHUB_TOKEN example_world)
   \<and> GITHUB_USERNAME example_world = Some ''u''
   \<and> ''u'' \<noteq> []
   \<and> fetch example_world (GET (searchUrl example_world ''twin'' ''u'') (githubHeaders example_world))
       = Returned \<lparr>status = 200, raw_text = [], json = SearchData 0 []\<rparr>
   \<and> ok \<lparr>status = 200, raw_text = [], json = SearchData 0 []\<rparr>
   \<and> json \<lparr>status = 200, raw_text = [], json = SearchData 0 []\<rparr> = SearchData 0 []
   \<and> githubSearch example_world ''twin'' =
       (case fallbackRepoSearch example_world ''twin'' ''u'' of
          Returned r \<Rightarrow> r
        | Thrown m \<Rightarrow> \<lparr>content_text = ''GitHub search error: '' @ m, isError = True\<rparr>)
   \<and> \<not> isError (githubSearch example_world ''twin'')"
proof -
  have h1: "\<not> falsy (GITHUB_TOKEN example_world)" by (simp add: falsy_def example_world_def)
  have h2: "GITHUB_USERNAME example_world = Some ''u''" by (simp add: example_world_def)
  have h3: "''u'' \<noteq> []" by simp
  have h4: "fetch example_world
      (GET (searchUrl example_world ''twin'' ''u'') (githubHeaders example_world))
      = Returned \<lparr>status = 200, raw_text = [], json = SearchData 0 []\<rparr>"
    by (simp add: example_world_def example_fetch_def searchUrl_def)
  have h5: "ok \<lparr>status = 200, raw_text = [], json = SearchData 0 []\<rparr>" by (simp add: ok_def)
  have h6: "json \<lparr>status = 200, raw_text = [], json = SearchData 0 []\<rparr> = SearchData 0 []"
    by simp
  have h7: "(0::int) = 0 \<or> ([]::GHSearchItem list) = []" by simp
  have e: "\<not> isError (githubSearch example_world ''twin'')" by code_simp
  from C8_empty_search_falls_back [OF h1 h2 h3 h4 h5 h6 h7] h1 h2 h4 h5 e
  show ?thesis by simp
qed

text \<open>
  Claim C9 (README excerpt), evaluated on the fallback. The account of the fixture lists
  one repository, whose README has the 21 lines \<open>line 1\<close> to \<open>line 21\<close>. The result of
  \<open>fallbackRepoSearch\<close> carries, between the fences of the entry of that repository,
  \<open>truncateCode(readme, 20)\<close>, which is not the first 20 lines of the README: it has 38
  lines, more than the README itself, namely the first 20 lines, an empty line, the
  marker \<open>... (-14 lines omitted) ...\<close>, an empty line and the last 15 lines, of which
  \<open>line 7\<close> to \<open>line 20\<close> appear for the second time.
\<close>

theorem C9_readme_excerpt_failing_input:
  "length (split_nl example_readme) = 21
   \<and> fallbackRepoSearch example_world ''twin'' ''u''
       = Returned
           \<lparr>content_text =
              EMOJI_SEARCH @ '' Repos matching \"twin\":'' @ [NL, NL] @
              EMOJI_FOLDER @ '' u/twin'' @ [NL] @
              EMOJI_MEMO @ '' Digital twin'' @ [NL] @
              EMOJI_WRENCH @ '' Language: TypeScript'' @ [NL] @
              EMOJI_LINK @ '' https://github.com/u/twin'' @ [NL] @
              [NL] @ ''README:'' @ [NL] @ FENCE @ [NL] @
              truncateCode example_readme 20 @ [NL] @ FENCE,
            isError = False\<rparr>
   \<and> split_nl (truncateCode example_readme 20)
       = [''line 1'', ''line 2'', ''line 3'', ''line 4'', ''line 5'',
          ''line 6'', ''line 7'', ''line 8'', ''line 9'', ''line 10'',
          ''line 11'', ''line 12'', ''line 13'', ''line 14'', ''line 15'',
          ''line 16'', ''line 17'', ''line 18'', ''line 19'', ''line 20'',
          [], ''  ... (-14 lines omitted) ...'', [], ''line 7'', ''line 8'',
          ''line 9'', ''line 10'', ''line 11'', ''line 12'', ''line 13'',
          ''line 14'', ''line 15'', ''line 16'', ''line 17'', ''line 18'',
          ''line 19'', ''line 20'', ''line 21'']
   \<and> truncateCode example_readme 20 \<noteq> join [NL] (take 20 (split_nl example_readme))"
proof -
  have a: "length (split_nl example_readme) = 21" by code_simp
  have b: "fallbackRepoSearch example_world ''twin'' ''u''
       = Returned
           \<lparr>content_text =
              EMOJI_SEARCH @ '' Repos matching \"twin\":'' @ [NL, NL] @
              EMOJI_FOLDER @ '' u/twin'' @ [NL] @
              EMOJI_MEMO @ '' Digital twin'' @ [NL] @
              EMOJI_WRENCH @ '' Language: TypeScript'' @ [NL] @
              EMOJI_LINK @ '' https://github.com/u/twin'' @ [NL] @
              [NL] @ ''README:'' @ [NL] @ FENCE @ [NL] @
              truncateCode example_readme 20 @ [NL] @ FENCE,
            isError = False\<rparr>"
    by code_simp
  have c: "split_nl (truncateCode example_readme 20)
       = [''line 1'', ''line 2'', ''line 3'', ''line 4'', ''line 5'',
          ''line 6'', ''line 7'', ''line 8'', ''line 9'', ''line 10'',
          ''line 11'', ''line 12'', ''line 13'', ''line 14'', ''line 15'',
          ''line 16'', ''line 17'', ''line 18'', ''line 19'', ''line 20'',
          [], ''  ... (-14 lines omitted) ...'', [], ''line 7'', ''line 8'',
          ''line 9'', ''line 10'', ''line 11'', ''line 12'', ''line 13'',
          ''line 14'', ''line 15'', ''line 16'', ''line 17'', ''line 18'',
          ''line 19'', ''line 20'', ''line 21'']"
    by code_simp
  have d: "length (split_nl (join [NL] (take 20 (split_nl example_readme)))) = 20" by code_simp
  from c have "length (split_nl (truncateCode example_readme 20)) = 38" by simp
  with d have e: "truncateCode example_readme 20 \<noteq> join [NL] (take 20 (split_nl example_readme))"
    by auto
  from a b c e show ?thesis by blast
qed


section \<open>The tool-call detector: proofs\<close>

lemma strip_prefix_append: "strip_prefix p (p @ r) = Some r"
  by (induction p) simp_all

lemma strip_prefix_SomeD: "strip_prefix p s = Some r \<Longrightarrow> s = p @ r"
  by (induction p s rule: strip_prefix.induct) (auto split: if_splits)

lemma bar_not_word: "\<not> is_word_char (CHR ''|'')"
  by (simp add: is_word_char_def)

lemma match_complete:
  assumes "name \<noteq> []" "list_all is_word_char name" "CHR ''}'' \<notin> set body"
  shows "TOOL_PATTERN_match (''TOOL:'' @ name @ ''|ARGS:{'' @ body @ ''}'' @ post)
           = Some (name, ''{'' @ body @ ''}'')"
proof -
  let ?r3 = "body @ CHR ''}'' # post"
  let ?r2 = "''|ARGS:{'' @ ?r3"
  let ?r1 = "name @ ?r2"
  have w: "\<And>x. x \<in> set name \<Longrightarrow> is_word_char x"
    using assms(2) by (simp add: list_all_iff)
  have s1: "strip_prefix ''TOOL:'' (''TOOL:'' @ ?r1) = Some ?r1" by (rule strip_prefix_append)
  have t1: "takeWhile is_word_char ?r1 = name"
    using takeWhile_append2 [of name is_word_char ?r2] w bar_not_word by simp
  have d1: "dropWhile is_word_char ?r1 = ?r2"
    using dropWhile_append2 [of name is_word_char ?r2] w bar_not_word by simp
  have s2: "strip_prefix ''|ARGS:{'' ?r2 = Some ?r3" by (rule strip_prefix_append)
  have b: "\<And>x. x \<in> set body \<Longrightarrow> x \<noteq> CHR ''}''" using assms(3) by auto
  have t2: "takeWhile (\<lambda>c. c \<noteq> CHR ''}'') ?r3 = body"
    using takeWhile_append2 [of body "\<lambda>c. c \<noteq> CHR ''}''" "CHR ''}'' # post"] b by simp
  have d2: "dropWhile (\<lambda>c. c \<noteq> CHR ''}'') ?r3 = CHR ''}'' # post"
    using dropWhile_append2 [of body "\<lambda>c. c \<noteq> CHR ''}''" "CHR ''}'' # post"] b by simp
  have "TOOL_PATTERN_match (''TOOL:'' @ ?r1) = Some (name, ''{'' @ body @ ''}'')"
    unfolding TOOL_PATTERN_match_def s1 using assms(1) by (simp only: option.case Let_def t1 d1 s2 t2 d2 list.case if_False) simp
  then show ?thesis by simp
qed

lemma match_sound:
  assumes "TOOL_PATTERN_match s = Some (name, js)"
  shows "\<exists>body post. s = ''TOOL:'' @ name @ ''|ARGS:{'' @ body @ ''}'' @ post
           \<and> name \<noteq> [] \<and> list_all is_word_char name \<and> CHR ''}'' \<notin> set body
           \<and> js = ''{'' @ body @ ''}''"
proof -
  from assms obtain r1 where r1: "strip_prefix ''TOOL:'' s = Some r1"
    by (auto simp: TOOL_PATTERN_match_def split: option.splits)
  let ?name = "takeWhile is_word_char r1"
  let ?r2 = "dropWhile is_word_char r1"
  from assms r1 have ne: "?name \<noteq> []"
    by (auto simp: TOOL_PATTERN_match_def Let_def split: option.splits if_splits)
  from assms r1 ne obtain r3 where r3: "strip_prefix ''|ARGS:{'' ?r2 = Some r3"
    by (auto simp: TOOL_PATTERN_match_def Let_def split: option.splits if_splits)
  let ?body = "takeWhile (\<lambda>c. c \<noteq> CHR ''}'') r3"
  let ?r4 = "dropWhile (\<lambda>c. c \<noteq> CHR ''}'') r3"
  from assms r1 ne r3 obtain c rest where r4: "?r4 = c # rest"
    and res: "name = ?name" "js = CHR ''{'' # ?body @ [c]"
    by (auto simp: TOOL_PATTERN_match_def Let_def split: option.splits if_splits list.splits)
  have "\<not> (hd ?r4 \<noteq> CHR ''}'')" using r4 hd_dropWhile [of "\<lambda>c. c \<noteq> CHR ''}''" r3] by simp
  with r4 have c: "c = CHR ''}''" by simp
  have "s = ''TOOL:'' @ r1" using strip_prefix_SomeD [OF r1] .
  moreover have "r1 = ?name @ ?r2" by simp
  moreover have "?r2 = ''|ARGS:{'' @ r3" using strip_prefix_SomeD [OF r3] .
  moreover have "r3 = ?body @ ?r4" by simp
  ultimately have "s = ''TOOL:'' @ ?name @ ''|ARGS:{'' @ ?body @ ''}'' @ rest"
    using r4 c by (metis append_Cons append_Nil)
  moreover have "list_all is_word_char ?name"
    by (auto simp: list_all_iff dest: set_takeWhileD)
  moreover have "CHR ''}'' \<notin> set ?body" by (auto dest: set_takeWhileD)
  ultimately show ?thesis using ne res c by auto
qed

lemma search_None_iff:
  "TOOL_PATTERN_search s = None \<longleftrightarrow> (\<forall>k\<le>length s. TOOL_PATTERN_match (drop k s) = None)"
proof (induction s)
  case Nil
  show ?case by simp
next
  case (Cons c cs)
  show ?case
  proof (cases "TOOL_PATTERN_match (c # cs)")
    case None
    have "(\<forall>k\<le>length (c # cs). TOOL_PATTERN_match (drop k (c # cs)) = None)
        \<longleftrightarrow> (\<forall>k\<le>length cs. TOOL_PATTERN_match (drop k cs) = None)"
    proof
      assume a: "\<forall>k\<le>length (c # cs). TOOL_PATTERN_match (drop k (c # cs)) = None"
      show "\<forall>k\<le>length cs. TOOL_PATTERN_match (drop k cs) = None"
      proof (intro allI impI)
        fix k assume "k \<le> length cs"
        with a have "TOOL_PATTERN_match (drop (Suc k) (c # cs)) = None" by (simp del: drop_Suc_Cons)
        then show "TOOL_PATTERN_match (drop k cs) = None" by simp
      qed
    next
      assume a: "\<forall>k\<le>length cs. TOOL_PATTERN_match (drop k cs) = None"
      show "\<forall>k\<le>length (c # cs). TOOL_PATTERN_match (drop k (c # cs)) = None"
      proof (intro allI impI)
        fix k assume k: "k \<le> length (c # cs)"
        show "TOOL_PATTERN_match (drop k (c # cs)) = None"
        proof (cases k)
          case 0
          with None show ?thesis by simp
        next
          case (Suc j)
          with k a show ?thesis by simp
        qed
      qed
    qed
    with None Cons.IH show ?thesis by simp
  next
    case (Some m)
    then have "\<not> (\<forall>k\<le>length (c # cs). TOOL_PATTERN_match (drop k (c # cs)) = None)"
      by (auto intro: exI [of _ 0])
    with Some show ?thesis by simp
  qed
qed

lemma search_first:
  assumes "k \<le> length s" "TOOL_PATTERN_match (drop k s) = Some m"
    and "\<forall>j<k. TOOL_PATTERN_match (drop j s) = None"
  shows "TOOL_PATTERN_search s = Some m"
  using assms
proof (induction s arbitrary: k)
  case Nil
  then show ?case by simp
next
  case (Cons c cs)
  show ?case
  proof (cases k)
    case 0
    with Cons.prems(2) show ?thesis by simp
  next
    case (Suc i)
    with Cons.prems(3) have "TOOL_PATTERN_match (drop 0 (c # cs)) = None" by blast
    then have none: "TOOL_PATTERN_match (c # cs) = None" by simp
    have "\<forall>j<i. TOOL_PATTERN_match (drop j cs) = None"
    proof (intro allI impI)
      fix j assume "j < i"
      with Suc Cons.prems(3) have "TOOL_PATTERN_match (drop (Suc j) (c # cs)) = None" by blast
      then show "TOOL_PATTERN_match (drop j cs) = None" by simp
    qed
    moreover from Suc Cons.prems(1,2) have "i \<le> length cs" "TOOL_PATTERN_match (drop i cs) = Some m"
      by simp_all
    ultimately have "TOOL_PATTERN_search cs = Some m" using Cons.IH by blast
    with none show ?thesis by simp
  qed
qed

lemma directive_at_match:
  assumes "directive_at text k name body"
  shows "TOOL_PATTERN_match (drop k text) = Some (name, ''{'' @ body @ ''}'')"
proof -
  from assms obtain post where "drop k text = ''TOOL:'' @ name @ ''|ARGS:{'' @ body @ ''}'' @ post"
    and "name \<noteq> []" "list_all is_word_char name" "CHR ''}'' \<notin> set body"
    unfolding directive_at_def by blast
  with match_complete [of name body post] show ?thesis by simp
qed

lemma match_directive_at:
  assumes "k \<le> length text" "TOOL_PATTERN_match (drop k text) = Some (name, js)"
  shows "\<exists>body. directive_at text k name body \<and> js = ''{'' @ body @ ''}''"
  using match_sound [OF assms(2)] assms(1) unfolding directive_at_def by blast

lemma first_directive_search:
  assumes "directive_at text k name body"
    and "\<forall>j n b. directive_at text j n b \<longrightarrow> k \<le> j"
  shows "TOOL_PATTERN_search text = Some (name, ''{'' @ body @ ''}'')"
proof -
  have k: "k \<le> length text" using assms(1) by (simp add: directive_at_def)
  have "\<forall>j<k. TOOL_PATTERN_match (drop j text) = None"
  proof (intro allI impI)
    fix j assume j: "j < k"
    show "TOOL_PATTERN_match (drop j text) = None"
    proof (rule ccontr)
      assume "TOOL_PATTERN_match (drop j text) \<noteq> None"
      then obtain n js where "TOOL_PATTERN_match (drop j text) = Some (n, js)" by auto
      moreover have "j \<le> length text" using j k by simp
      ultimately obtain b where "directive_at text j n b" using match_directive_at by blast
      with assms(2) have "k \<le> j" by blast
      with j show False by simp
    qed
  qed
  with search_first [OF k directive_at_match [OF assms(1)]] show ?thesis by blast
qed

lemma no_directive_search:
  assumes "\<forall>j n b. \<not> directive_at text j n b"
  shows "TOOL_PATTERN_search text = None"
proof -
  have "\<forall>k\<le>length text. TOOL_PATTERN_match (drop k text) = None"
  proof (intro allI impI)
    fix k assume k: "k \<le> length text"
    show "TOOL_PATTERN_match (drop k text) = None"
    proof (rule ccontr)
      assume "TOOL_PATTERN_match (drop k text) \<noteq> None"
      then obtain n js where "TOOL_PATTERN_match (drop k text) = Some (n, js)" by auto
      with k obtain b where "directive_at text k n b" using match_directive_at by blast
      with assms show False by blast
    qed
  qed
  then show ?thesis by (simp add: search_None_iff)
qed

lemma first_by_match:
  assumes "\<forall>j<k. TOOL_PATTERN_match (drop j text) = None"
  shows "\<forall>j n b. directive_at text j n b \<longrightarrow> k \<le> j"
proof (intro allI impI)
  fix j n b assume "directive_at text j n b"
  from directive_at_match [OF this] assms show "k \<le> j" by (cases "j < k") auto
qed

lemma none_by_search:
  assumes "TOOL_PATTERN_search text = None"
  shows "\<forall>j n b. \<not> directive_at text j n b"
proof (intro allI notI)
  fix j n b assume d: "directive_at text j n b"
  then have "j \<le> length text" by (simp add: directive_at_def)
  with assms have "TOOL_PATTERN_match (drop j text) = None" by (simp add: search_None_iff)
  with directive_at_match [OF d] show False by simp
qed

text \<open>
  Claim C7 (detector round-trip), as amended. The JSON text of a directive is the
  second group of the pattern, which ends at the first closing brace after \<open>|ARGS:{\<close>.
  For every JSON parser: when the first directive of a text has the tool name \<open>name\<close>
  and the brace-delimited text \<open>{body}\<close>, with no closing brace inside \<open>body\<close>, and that
  text parses to \<open>args\<close>, the detector yields the one directive \<open>(name, args)\<close>,
  whatever precedes and follows it; when the text holds no directive it yields none; and
  when the text of the first directive does not parse it yields none.
\<close>

theorem C7_detector_round_trip:
  "(directive_at text k name body \<and> (\<forall>j n b. directive_at text j n b \<longrightarrow> k \<le> j)
      \<and> parse (''{'' @ body @ ''}'') = Some args
    \<longrightarrow> detect_tool_call parse text = Some (name, args))
   \<and> ((\<forall>j n b. \<not> directive_at text j n b) \<longrightarrow> detect_tool_call parse text = None)
   \<and> (directive_at text k name body \<and> (\<forall>j n b. directive_at text j n b \<longrightarrow> k \<le> j)
      \<and> parse (''{'' @ body @ ''}'') = None
    \<longrightarrow> detect_tool_call parse text = None)"
proof -
  have a: "directive_at text k name body \<and> (\<forall>j n b. directive_at text j n b \<longrightarrow> k \<le> j)
      \<and> parse (''{'' @ body @ ''}'') = Some args
    \<longrightarrow> detect_tool_call parse text = Some (name, args)"
  proof
    assume h: "directive_at text k name body \<and> (\<forall>j n b. directive_at text j n b \<longrightarrow> k \<le> j)
      \<and> parse (''{'' @ body @ ''}'') = Some args"
    then have "TOOL_PATTERN_search text = Some (name, ''{'' @ body @ ''}'')"
      using first_directive_search [of "text" k name body] by blast
    with h show "detect_tool_call parse text = Some (name, args)"
      by (simp add: detect_tool_call_def)
  qed
  have b: "(\<forall>j n b. \<not> directive_at text j n b) \<longrightarrow> detect_tool_call parse text = None"
    using no_directive_search [of "text"] by (simp add: detect_tool_call_def)
  have c: "directive_at text k name body \<and> (\<forall>j n b. directive_at text j n b \<longrightarrow> k \<le> j)
      \<and> parse (''{'' @ body @ ''}'') = None
    \<longrightarrow> detect_tool_call parse text = None"
  proof
    assume h: "directive_at text k name body \<and> (\<forall>j n b. directive_at text j n b \<longrightarrow> k \<le> j)
      \<and> parse (''{'' @ body @ ''}'') = None"
    then have "TOOL_PATTERN_search text = Some (name, ''{'' @ body @ ''}'')"
      using first_directive_search [of "text" k name body] by blast
    with h show "detect_tool_call parse text = None"
      by (simp add: detect_tool_call_def)
  qed
  from a b c show ?thesis by blast
qed

theorem C7_detector_round_trip_witness:
  "directive_at ''ok TOOL:github_search|ARGS:{\"query\":\"React\"} now'' 3
       ''github_search'' ''\"query\":\"React\"''
   \<and> \<not> (\<exists>j n b. directive_at ''ok TOOL:github_search|ARGS:{\"query\":\"React\"} now'' j n b
              \<and> j < 3)
   \<and> json_loads (''{'' @ ''\"query\":\"React\"'' @ ''}'')
       = Some (JObject [(''query'', JString ''React'')])
   \<and> detect_tool_call json_loads ''ok TOOL:github_search|ARGS:{\"query\":\"React\"} now''
       = Some (''github_search'', JObject [(''query'', JString ''React'')])
   \<and> \<not> (\<exists>j n b. directive_at ''No tool is needed.'' j n b)
   \<and> detect_tool_call json_loads ''No tool is needed.'' = None
   \<and> directive_at ''TOOL:github_search|ARGS:{query}'' 0 ''github_search'' ''query''
   \<and> json_loads (''{'' @ ''query'' @ ''}'') = None
   \<and> detect_tool_call json_loads ''TOOL:github_search|ARGS:{query}'' = None"
proof -
  let ?t1 = "''ok TOOL:github_search|ARGS:{\"query\":\"React\"} now''"
  let ?t2 = "''No tool is needed.''"
  let ?t3 = "''TOOL:github_search|ARGS:{query}''"
  let ?args = "JObject [(''query'', JString ''React'')]"
  have w: "list_all is_word_char ''github_search''" by (simp add: is_word_char_def)
  have "drop 3 ?t1 = ''TOOL:'' @ ''github_search'' @ ''|ARGS:{'' @ ''\"query\":\"React\"'' @ ''}'' @ '' now''"
    by simp
  then have "\<exists>post. drop 3 ?t1
      = ''TOOL:'' @ ''github_search'' @ ''|ARGS:{'' @ ''\"query\":\"React\"'' @ ''}'' @ post"
    by (rule exI)
  with w have a1: "directive_at ?t1 3 ''github_search'' ''\"query\":\"React\"''"
    unfolding directive_at_def by simp
  have m0: "TOOL_PATTERN_match (drop 0 ?t1) = None" by (simp add: TOOL_PATTERN_match_def)
  have m1: "TOOL_PATTERN_match (drop 1 ?t1) = None" by (simp add: TOOL_PATTERN_match_def)
  have m2: "TOOL_PATTERN_match (drop 2 ?t1) = None" by (simp add: TOOL_PATTERN_match_def)
  have "\<forall>j<3. TOOL_PATTERN_match (drop j ?t1) = None"
  proof (intro allI impI)
    fix j :: nat assume "j < 3"
    then have "j = 0 \<or> j = 1 \<or> j = 2" by arith
    with m0 m1 m2 show "TOOL_PATTERN_match (drop j ?t1) = None" by blast
  qed
  then have a2: "\<forall>j n b. directive_at ?t1 j n b \<longrightarrow> 3 \<le> j" by (rule first_by_match)
  have a3: "json_loads (''{'' @ ''\"query\":\"React\"'' @ ''}'') = Some ?args" by code_simp
  have "TOOL_PATTERN_search ?t2 = None" by code_simp
  then have b1: "\<forall>j n b. \<not> directive_at ?t2 j n b" by (rule none_by_search)
  have "drop 0 ?t3 = ''TOOL:'' @ ''github_search'' @ ''|ARGS:{'' @ ''query'' @ ''}'' @ []"
    by simp
  then have "\<exists>post. drop 0 ?t3 = ''TOOL:'' @ ''github_search'' @ ''|ARGS:{'' @ ''query'' @ ''}'' @ post"
    by (rule exI)
  with w have c1: "directive_at ?t3 0 ''github_search'' ''query''"
    unfolding directive_at_def by simp
  have c2: "\<forall>j n b. directive_at ?t3 j n b \<longrightarrow> 0 \<le> j" by simp
  have c3: "json_loads (''{'' @ ''query'' @ ''}'') = None" by code_simp
  have r1: "detect_tool_call json_loads ?t1 = Some (''github_search'', ?args)"
    using C7_detector_round_trip
      [of ?t1 3 "''github_search''" "''\"query\":\"React\"''" json_loads ?args] a1 a2 a3
    by blast
  have r2: "detect_tool_call json_loads ?t2 = None"
    using C7_detector_round_trip [of ?t2 0 "[]" "[]" json_loads JNull] b1 by blast
  have r3: "detect_tool_call json_loads ?t3 = None"
    using C7_detector_round_trip [of ?t3 0 "''github_search''" "''query''" json_loads JNull]
      c1 c2 c3
    by blast
  have a2': "\<not> (\<exists>j n b. directive_at ?t1 j n b \<and> j < 3)" using a2 by fastforce
  have b1': "\<not> (\<exists>j n b. directive_at ?t2 j n b)" using b1 by blast
  from a1 a2' a3 r1 b1' r2 c1 c3 r3 show ?thesis by blast
qed

text \<open>
  The claim as stated, refuted: the arguments \<open>{"query":"fn() {}"}\<close> are a JSON object
  that parses, the text holds this one directive and nothing else, and the detector yields
  none: the pattern hands the parser the text up to the first closing brace,
  \<open>{"query":"fn() {}\<close>.
\<close>

theorem C7_detector_round_trip_counterexample:
  "json_loads ''{\"query\":\"fn() {}\"}'' = Some (JObject [(''query'', JString ''fn() {}'')])
   \<and> TOOL_PATTERN_search ''TOOL:github_search|ARGS:{\"query\":\"fn() {}\"}''
       = Some (''github_search'', ''{\"query\":\"fn() {}'')
   \<and> detect_tool_call json_loads ''TOOL:github_search|ARGS:{\"query\":\"fn() {}\"}'' = None"
proof -
  have a: "json_loads ''{\"query\":\"fn() {}\"}'' = Some (JObject [(''query'', JString ''fn() {}'')])"
    by code_simp
  have b: "TOOL_PATTERN_search ''TOOL:github_search|ARGS:{\"query\":\"fn() {}\"}''
       = Some (''github_search'', ''{\"query\":\"fn() {}'')"
    by code_simp
  have c: "detect_tool_call json_loads ''TOOL:github_search|ARGS:{\"query\":\"fn() {}\"}'' = None"
    by code_simp
  from a b c show ?thesis by blast
qed

end
